theory Spec2Isabelle
  imports Main "HOL-Library.Sublist" "HOL-Library.Product_Lexorder"
begin

section \<open>JavaScript strings\<close>

text \<open>
  A JavaScript string is modelled as a \<open>string\<close>, one \<open>char\<close> for each code unit.
  The model is exact on ASCII text: white space is the ASCII white space of
  \<^verbatim>\<open>String.prototype.trim\<close> and of the regular expression class \<^verbatim>\<open>\s\<close>, and case
  conversion changes the ASCII letters only.
\<close>

abbreviation TAB :: char where "TAB \<equiv> CHR 0x09"
abbreviation LF :: char where "LF \<equiv> CHR 0x0A"
abbreviation CR :: char where "CR \<equiv> CHR 0x0D"
abbreviation BSL :: char where "BSL \<equiv> CHR 0x5C"
abbreviation DQUOTE :: char where "DQUOTE \<equiv> CHR 0x22"
abbreviation SQUOTE :: char where "SQUOTE \<equiv> CHR 0x27"

definition isSpace :: "char \<Rightarrow> bool" where
  "isSpace c = (c = TAB \<or> c = LF \<or> c = CHR 0x0B \<or> c = CHR 0x0C \<or> c = CR \<or> c = CHR '' '')"

definition isDigit :: "char \<Rightarrow> bool" where
  "isDigit c = (let n = (of_char c :: nat) in 48 \<le> n \<and> n \<le> 57)"

definition trim :: "string \<Rightarrow> string" where
  "trim s = rev (dropWhile isSpace (rev (dropWhile isSpace s)))"

definition upperChar :: "char \<Rightarrow> char" where
  "upperChar c = (let n = (of_char c :: nat) in if 97 \<le> n \<and> n \<le> 122 then char_of (n - 32) else c)"

definition lowerChar :: "char \<Rightarrow> char" where
  "lowerChar c = (let n = (of_char c :: nat) in if 65 \<le> n \<and> n \<le> 90 then char_of (n + 32) else c)"

definition toUpperCase :: "string \<Rightarrow> string" where
  "toUpperCase s = map upperChar s"

definition toLowerCase :: "string \<Rightarrow> string" where
  "toLowerCase s = map lowerChar s"

text \<open>\<^verbatim>\<open>s.startsWith(p)\<close> is \<^term>\<open>prefix p s\<close> and \<^verbatim>\<open>s.endsWith(p)\<close> is \<^term>\<open>suffix p s\<close>.\<close>

fun includesStr :: "string \<Rightarrow> string \<Rightarrow> bool" where
  "includesStr [] sub = (sub = [])"
| "includesStr (x # xs) sub = (prefix sub (x # xs) \<or> includesStr xs sub)"

text \<open>\<^verbatim>\<open>s.indexOf(c)\<close> for a single character; \<open>None\<close> is the result \<open>-1\<close>.\<close>

definition indexOf :: "string \<Rightarrow> char \<Rightarrow> nat option" where
  "indexOf s c = (if c \<in> set s then Some (length (takeWhile (\<lambda>x. x \<noteq> c) s)) else None)"

text \<open>An array read \<^verbatim>\<open>xs[i]\<close>: out of range it is \<^verbatim>\<open>undefined\<close>, here \<open>None\<close>.\<close>

definition nthOpt :: "'a list \<Rightarrow> nat \<Rightarrow> 'a option" where
  "nthOpt xs i = (if i < length xs then Some (xs ! i) else None)"

definition consHd :: "'a \<Rightarrow> 'a list list \<Rightarrow> 'a list list" where
  "consHd x ls = (case ls of [] \<Rightarrow> [[x]] | l # r \<Rightarrow> (x # l) # r)"

text \<open>\<^verbatim>\<open>s.split(sep)\<close> for a non-empty separator string.\<close>

fun splitStr :: "string \<Rightarrow> string \<Rightarrow> string list" where
  "splitStr sep [] = [[]]"
| "splitStr sep (x # xs) =
     (if sep \<noteq> [] \<and> prefix sep (x # xs)
      then [] # splitStr sep (drop (length sep - 1) xs)
      else consHd x (splitStr sep xs))"

text \<open>
  \<^verbatim>\<open>s.replace(/pat/g, rep)\<close> for a pattern that is a non-empty literal string: the
  matches are found from left to right and do not overlap.
\<close>

fun replaceAll :: "string \<Rightarrow> string \<Rightarrow> string \<Rightarrow> string" where
  "replaceAll pat rep [] = []"
| "replaceAll pat rep (x # xs) =
     (if pat \<noteq> [] \<and> prefix pat (x # xs)
      then rep @ replaceAll pat rep (drop (length pat - 1) xs)
      else x # replaceAll pat rep xs)"

text \<open>
  A regular expression with anchors at both ends that is a sequence of digits
  (\<^verbatim>\<open>\d\<close>) and fixed characters: \<open>matchPat\<close> returns what is left of the input
  after the sequence.
\<close>

datatype pat = PDigit | PChar char

fun matchPat :: "pat list \<Rightarrow> string \<Rightarrow> string option" where
  "matchPat [] s = Some s"
| "matchPat (p # ps) [] = None"
| "matchPat (PDigit # ps) (x # xs) = (if isDigit x then matchPat ps xs else None)"
| "matchPat (PChar c # ps) (x # xs) = (if x = c then matchPat ps xs else None)"

text \<open>\<^verbatim>\<open>s.replace(pat, rep)\<close> for a literal string pattern: the first occurrence only.\<close>

fun replaceFirst :: "string \<Rightarrow> string \<Rightarrow> string \<Rightarrow> string" where
  "replaceFirst pat rep [] = (if pat = [] then rep else [])"
| "replaceFirst pat rep (x # xs) =
     (if prefix pat (x # xs) then rep @ drop (length pat) (x # xs)
      else x # replaceFirst pat rep xs)"

text \<open>\<^verbatim>\<open>lines.join(sep)\<close>.\<close>

fun join :: "string \<Rightarrow> string list \<Rightarrow> string" where
  "join sep [] = []"
| "join sep [l] = l"
| "join sep (l # m # ls) = l @ sep @ join sep (m # ls)"

section \<open>JavaScript numbers\<close>

text \<open>
  The only numbers of the program are the results of \<^verbatim>\<open>Number.parseInt(value, 10)\<close>:
  \<^verbatim>\<open>NaN\<close> or an integer. The model keeps the integer exactly; JavaScript rounds
  an integer beyond \<open>2^53\<close> to a double.
\<close>

datatype jsnum = NaN | Num int

definition digitsVal :: "string \<Rightarrow> nat" where
  "digitsVal ds = foldl (\<lambda>a d. 10 * a + (of_char d - 48)) 0 ds"

definition parseInt :: "string \<Rightarrow> jsnum" where
  "parseInt s =
     (let t = dropWhile isSpace s;
          neg = (take 1 t = ''-'');
          r = (if take 1 t = ''-'' \<or> take 1 t = ''+'' then drop 1 t else t);
          ds = takeWhile isDigit r
      in if ds = [] then NaN
         else Num (if neg then - int (digitsVal ds) else int (digitsVal ds)))"

function showNat :: "nat \<Rightarrow> string" where
  "showNat n = (if n < 10 then [char_of (48 + n)] else showNat (n div 10) @ [char_of (48 + n mod 10)])"
  by pat_completeness auto
termination
  by (relation "measure id") auto

declare showNat.simps [simp del]

text \<open>The template literal \<^verbatim>\<open>`${n}`\<close> of a number.\<close>

fun showNum :: "jsnum \<Rightarrow> string" where
  "showNum NaN = ''NaN''"
| "showNum (Num i) = (if i < 0 then ''-'' @ showNat (nat (- i)) else showNat (nat i))"

text \<open>Truthiness of an optional string and of an optional number.\<close>

definition truthy :: "string option \<Rightarrow> bool" where
  "truthy v = (case v of None \<Rightarrow> False | Some s \<Rightarrow> s \<noteq> [])"

text \<open>Truthiness of an optional object: it is there.\<close>

definition present :: "'a option \<Rightarrow> bool" where
  "present v = (case v of None \<Rightarrow> False | Some x \<Rightarrow> True)"

definition truthyNum :: "jsnum option \<Rightarrow> bool" where
  "truthyNum v = (case v of None \<Rightarrow> False | Some NaN \<Rightarrow> False | Some (Num i) \<Rightarrow> i \<noteq> 0)"

section \<open>Calendar components (filters.ts)\<close>

text \<open>
  The interface \<^verbatim>\<open>CalendarComponent\<close>. An optional field is \<open>None\<close> when the
  property is absent from the object. The index signature \<^verbatim>\<open>[key: string]: any\<close>
  is the association list \<open>others\<close>, in insertion order; the parser writes to
  it only under lower-cased property names that are none of the typed fields.
\<close>

record CalendarComponent =
  uid :: "string option"
  componentType :: "string option"
  summary :: "string option"
  dtstart :: "string option"
  dtend :: "string option"
  categories :: "string list option"
  status :: "string option"
  priority :: "jsnum option"
  description :: "string option"
  location :: "string option"
  others :: "(string \<times> string) list"

definition emptyComponent :: CalendarComponent where
  "emptyComponent = \<lparr>uid = None, componentType = None, summary = None, dtstart = None,
     dtend = None, categories = None, status = None, priority = None, description = None,
     location = None, others = []\<rparr>"

subsection \<open>parseICalendarData\<close>

text \<open>\<^verbatim>\<open>icalData.replace(/\r?\n[ \t]/g, '')\<close>\<close>

fun unfoldLines :: "string \<Rightarrow> string" where
  "unfoldLines [] = []"
| "unfoldLines (x # xs) =
     (if x = CR \<and> take 1 xs = [LF] \<and> (take 1 (drop 1 xs) = '' '' \<or> take 1 (drop 1 xs) = [TAB])
      then unfoldLines (drop 2 xs)
      else if x = LF \<and> (take 1 xs = '' '' \<or> take 1 xs = [TAB])
      then unfoldLines (drop 1 xs)
      else x # unfoldLines xs)"

text \<open>\<^verbatim>\<open>unfoldedData.split(/\r?\n/)\<close>\<close>

fun splitLines :: "string \<Rightarrow> string list" where
  "splitLines [] = [[]]"
| "splitLines (x # xs) =
     (if x = CR \<and> take 1 xs = [LF] then [] # splitLines (drop 1 xs)
      else if x = LF then [] # splitLines xs
      else consHd x (splitLines xs))"

text \<open>
  \<^verbatim>\<open>parseParameters\<close>: the object \<open>params\<close> is an association list; a later
  assignment to a key overrides an earlier one, so a key is looked up from the end.
\<close>

definition parseParameters :: "string list \<Rightarrow> (string \<times> string) list" where
  "parseParameters paramParts =
     foldl (\<lambda>params param.
        let kv = splitStr ''='' param; key = nthOpt kv 0; val = nthOpt kv 1
        in if truthy key \<and> truthy val then params @ [(toUpperCase (the key), the val)] else params)
      [] paramParts"

definition paramLookup :: "(string \<times> string) list \<Rightarrow> string \<Rightarrow> string option" where
  "paramLookup params k = map_of (rev params) k"

definition parseDateTime :: "string \<Rightarrow> (string \<times> string) list \<Rightarrow> string" where
  "parseDateTime val params =
     (if truthy (paramLookup params ''TZID'')
      then val @ '' ('' @ the (paramLookup params ''TZID'') @ '')''
      else val)"

definition unescapeValue :: "string \<Rightarrow> string" where
  "unescapeValue val =
     replaceAll [BSL, BSL] [BSL]
       (replaceAll [BSL, CHR '';''] '';''
         (replaceAll [BSL, CHR '',''] '',''
           (replaceAll [BSL, CHR ''n''] [LF] val)))"

text \<open>\<^verbatim>\<open>value.split(/(?<!\\),/)\<close>: a comma splits unless the character before it is a backslash.\<close>

fun splitUnescapedComma :: "char option \<Rightarrow> string \<Rightarrow> string list" where
  "splitUnescapedComma prev [] = [[]]"
| "splitUnescapedComma prev (x # xs) =
     (if x = CHR '','' \<and> prev \<noteq> Some BSL then [] # splitUnescapedComma (Some x) xs
      else consHd x (splitUnescapedComma (Some x) xs))"

text \<open>
  An assignment \<^verbatim>\<open>component[key] = v\<close> through the index signature. Assigning a
  string to \<^verbatim>\<open>__proto__\<close> changes nothing.
\<close>

fun assocSet :: "string \<Rightarrow> string \<Rightarrow> (string \<times> string) list \<Rightarrow> (string \<times> string) list" where
  "assocSet k v [] = [(k, v)]"
| "assocSet k v ((k', v') # kvs) = (if k = k' then (k, v) # kvs else (k', v') # assocSet k v kvs)"

definition setOther :: "string \<Rightarrow> string \<Rightarrow> CalendarComponent \<Rightarrow> CalendarComponent" where
  "setOther k v component =
     (if k = ''__proto__'' then component else component\<lparr>others := assocSet k v (others component)\<rparr>)"

definition parseProperty :: "string \<Rightarrow> CalendarComponent \<Rightarrow> CalendarComponent" where
  "parseProperty line component =
     (case indexOf line (CHR '':'') of
        None \<Rightarrow> component
      | Some colonIndex \<Rightarrow>
         (let propPart = take colonIndex line;
              val = drop (colonIndex + 1) line;
              propName = hd (splitStr '';'' propPart);
              paramParts = tl (splitStr '';'' propPart);
              params = parseParameters paramParts;
              name = toUpperCase propName
          in if name = ''UID'' then component\<lparr>uid := Some val\<rparr>
             else if name = ''SUMMARY'' then component\<lparr>summary := Some (unescapeValue val)\<rparr>
             else if name = ''DTSTART'' then component\<lparr>dtstart := Some (parseDateTime val params)\<rparr>
             else if name = ''DTEND'' then component\<lparr>dtend := Some (parseDateTime val params)\<rparr>
             else if name = ''CATEGORIES''
               then component\<lparr>categories :=
                      Some (map (\<lambda>cat. unescapeValue (trim cat)) (splitUnescapedComma None val))\<rparr>
             else if name = ''STATUS'' then component\<lparr>status := Some (toUpperCase val)\<rparr>
             else if name = ''PRIORITY'' then component\<lparr>priority := Some (parseInt val)\<rparr>
             else if name = ''DESCRIPTION'' then component\<lparr>description := Some (unescapeValue val)\<rparr>
             else if name = ''LOCATION'' then component\<lparr>location := Some (unescapeValue val)\<rparr>
             else setOther (toLowerCase propName) (unescapeValue val) component))"

text \<open>The state of the loop over the lines, and its body.\<close>

record ParseState =
  components :: "CalendarComponent list"
  currentComponent :: "CalendarComponent option"
  inComponent :: bool

definition isBegin :: "string \<Rightarrow> bool" where
  "isBegin l = (prefix ''BEGIN:VEVENT'' l \<or> prefix ''BEGIN:VTODO'' l \<or> prefix ''BEGIN:VJOURNAL'' l)"

definition isEnd :: "string \<Rightarrow> bool" where
  "isEnd l = (prefix ''END:VEVENT'' l \<or> prefix ''END:VTODO'' l \<or> prefix ''END:VJOURNAL'' l)"

definition parseLine :: "ParseState \<Rightarrow> string \<Rightarrow> ParseState" where
  "parseLine st line =
     (let trimmedLine = trim line
      in if trimmedLine = [] then st
         else if isBegin trimmedLine
           then st\<lparr>currentComponent :=
                     Some (emptyComponent\<lparr>componentType := nthOpt (splitStr '':'' trimmedLine) 1\<rparr>),
                   inComponent := True\<rparr>
         else if isEnd trimmedLine
           then (case currentComponent st of
                   None \<Rightarrow> st\<lparr>currentComponent := None, inComponent := False\<rparr>
                 | Some c \<Rightarrow>
                     (if truthy (uid c)
                      then st\<lparr>components := components st @ [c], currentComponent := None,
                              inComponent := False\<rparr>
                      else st\<lparr>currentComponent := None, inComponent := False\<rparr>))
         else (case currentComponent st of
                 None \<Rightarrow> st
               | Some c \<Rightarrow>
                   (if inComponent st then st\<lparr>currentComponent := Some (parseProperty trimmedLine c)\<rparr>
                    else st)))"

definition initialState :: ParseState where
  "initialState = \<lparr>components = [], currentComponent = None, inComponent = False\<rparr>"

definition parseICalendarData :: "string \<Rightarrow> CalendarComponent list" where
  "parseICalendarData icalData =
     components (foldl parseLine initialState (splitLines (unfoldLines icalData)))"

subsection \<open>componentsToICalendar\<close>

text \<open>\<^verbatim>\<open>.replace(/\r\n|\n|\r/g, '\\n')\<close>\<close>

fun replaceNewlines :: "string \<Rightarrow> string" where
  "replaceNewlines [] = []"
| "replaceNewlines (x # xs) =
     (if x = CR \<and> take 1 xs = [LF] then BSL # CHR ''n'' # replaceNewlines (drop 1 xs)
      else if x = LF \<or> x = CR then BSL # CHR ''n'' # replaceNewlines xs
      else x # replaceNewlines xs)"

definition escapeValue :: "string \<Rightarrow> string" where
  "escapeValue val =
     replaceNewlines
       (replaceAll '','' [BSL, CHR '','']
         (replaceAll '';'' [BSL, CHR '';'']
           (replaceAll [BSL] [BSL, BSL] val)))"

text \<open>\<^verbatim>\<open>.replace(/[^0-9TZ]/g, '')\<close>\<close>

definition stripDate :: "string \<Rightarrow> string" where
  "stripDate s = filter (\<lambda>c. isDigit c \<or> c = CHR ''T'' \<or> c = CHR ''Z'') s"

definition compTypeOf :: "CalendarComponent \<Rightarrow> string" where
  "compTypeOf cmp =
     (if truthy (componentType cmp) then the (componentType cmp)
      else if truthy (dtstart cmp) then ''VEVENT''
      else if truthy (status cmp) then ''VTODO''
      else ''VJOURNAL'')"

text \<open>The lines that one iteration of the loop over the components pushes.\<close>

definition componentLines :: "CalendarComponent \<Rightarrow> string list" where
  "componentLines cmp =
     [''BEGIN:'' @ compTypeOf cmp]
     @ (if truthy (uid cmp) then [''UID:'' @ the (uid cmp)] else [])
     @ (if truthy (summary cmp) then [''SUMMARY:'' @ escapeValue (the (summary cmp))] else [])
     @ (if truthy (dtstart cmp) then [''DTSTART:'' @ stripDate (the (dtstart cmp))] else [])
     @ (if truthy (dtend cmp) then [''DTEND:'' @ stripDate (the (dtend cmp))] else [])
     @ (if truthy (description cmp)
        then [''DESCRIPTION:'' @ escapeValue (the (description cmp))] else [])
     @ (if truthy (location cmp) then [''LOCATION:'' @ escapeValue (the (location cmp))] else [])
     @ (if truthy (status cmp) then [''STATUS:'' @ the (status cmp)] else [])
     @ (if truthyNum (priority cmp) then [''PRIORITY:'' @ showNum (the (priority cmp))] else [])
     @ (case categories cmp of
          None \<Rightarrow> []
        | Some cats \<Rightarrow>
            (if cats \<noteq> [] then [''CATEGORIES:'' @ join '','' (map escapeValue cats)] else []))
     @ [''END:'' @ compTypeOf cmp]"

definition componentsToICalendar :: "CalendarComponent list \<Rightarrow> string" where
  "componentsToICalendar comps =
     join [CR, LF]
       (foldl (\<lambda>icalLines cmp. icalLines @ componentLines cmp)
          [''BEGIN:VCALENDAR'', ''VERSION:2.0'', ''PRODID:-//MCP CalDAV Server//EN''] comps
        @ [''END:VCALENDAR''])"

subsection \<open>Properties of parsed components, and example documents\<close>

definition hasUid :: "CalendarComponent \<Rightarrow> bool" where
  "hasUid c = (\<exists>u. uid c = Some u \<and> u \<noteq> [])"

definition uidExampleDoc :: string where
  "uidExampleDoc = ''BEGIN:VTODO'' @ [LF] @ ''SUMMARY:no identifier'' @ [LF] @ ''END:VTODO'' @ [LF]
     @ ''BEGIN:VEVENT'' @ [LF] @ ''UID:'' @ [LF] @ ''END:VEVENT'' @ [LF]
     @ ''BEGIN:VEVENT'' @ [LF] @ ''UID:e1'' @ [LF] @ ''END:VEVENT''"

subsection \<open>The filters\<close>

definition filterByCategory :: "CalendarComponent list \<Rightarrow> string \<Rightarrow> CalendarComponent list" where
  "filterByCategory comps category =
     filter (\<lambda>c. case categories c of
                   None \<Rightarrow> False
                 | Some cats \<Rightarrow> list_ex (\<lambda>cat. includesStr (toLowerCase cat) (toLowerCase category)) cats)
       comps"

definition filterByStatus :: "CalendarComponent list \<Rightarrow> string \<Rightarrow> CalendarComponent list" where
  "filterByStatus comps st = filter (\<lambda>c. status c = Some (toUpperCase st)) comps"

definition filterByUid :: "CalendarComponent list \<Rightarrow> string \<Rightarrow> CalendarComponent list" where
  "filterByUid comps u = filter (\<lambda>c. uid c = Some u) comps"

subsubsection \<open>filterByTimeRange\<close>

text \<open>
  The parser of \<^verbatim>\<open>new Date(string)\<close> is a parameter \<open>parseDate\<close> of the model: the time
  value of the date in milliseconds, or \<open>None\<close> for an invalid date, whose time
  value is \<^verbatim>\<open>NaN\<close>. A comparison with \<^verbatim>\<open>NaN\<close> is false.
\<close>

type_synonym date = "int option"

definition dateLess :: "date \<Rightarrow> date \<Rightarrow> bool" where
  "dateLess a b = (case a of None \<Rightarrow> False | Some x \<Rightarrow> (case b of None \<Rightarrow> False | Some y \<Rightarrow> x < y))"

text \<open>\<^verbatim>\<open>new Date(d.getTime() + 24 * 60 * 60 * 1000)\<close>; a time value beyond the range of dates is invalid.\<close>

definition addDay :: "date \<Rightarrow> date" where
  "addDay d =
     (case d of
        None \<Rightarrow> None
      | Some x \<Rightarrow> (if x + 86400000 > 8640000000000000 then None else Some (x + 86400000)))"

text \<open>The match of \<^verbatim>\<open>/\s*\([^)]+\)\s*$/\<close> at the start of the text.\<close>

definition tzMatch :: "string \<Rightarrow> bool" where
  "tzMatch s =
     (let r = dropWhile isSpace s;
          body = takeWhile (\<lambda>c. c \<noteq> CHR '')'') (drop 1 r);
          rest = drop (length body) (drop 1 r)
      in take 1 r = ''('' \<and> body \<noteq> [] \<and> take 1 rest = '')'' \<and> dropWhile isSpace (drop 1 rest) = [])"

text \<open>\<^verbatim>\<open>raw.replace(/\s*\([^)]+\)\s*$/, '')\<close>: the leftmost match is removed.\<close>

fun stripTz :: "string \<Rightarrow> string" where
  "stripTz [] = []"
| "stripTz (x # xs) = (if tzMatch (x # xs) then [] else x # stripTz xs)"

text \<open>The patterns \<^verbatim>\<open>\d{8}T\d{6}\<close> and \<^verbatim>\<open>\d{8}\<close>.\<close>

definition compactDateTime :: "pat list" where
  "compactDateTime = [PDigit, PDigit, PDigit, PDigit, PDigit, PDigit, PDigit, PDigit,
     PChar (CHR ''T''), PDigit, PDigit, PDigit, PDigit, PDigit, PDigit]"

definition compactDate :: "pat list" where
  "compactDate = [PDigit, PDigit, PDigit, PDigit, PDigit, PDigit, PDigit, PDigit]"

definition parseICalDate :: "(string \<Rightarrow> date) \<Rightarrow> string \<Rightarrow> date" where
  "parseICalDate parseDate raw =
     (let trimmed = stripTz raw
      in if matchPat compactDateTime trimmed = Some []
            \<or> matchPat compactDateTime trimmed = Some ''Z''
         then parseDate (take 4 trimmed @ ''-'' @ take 2 (drop 4 trimmed) @ ''-'' @ take 2 (drop 6 trimmed)
                 @ ''T'' @ take 2 (drop 9 trimmed) @ '':'' @ take 2 (drop 11 trimmed) @ '':''
                 @ take 2 (drop 13 trimmed) @ ''Z'')
         else if matchPat compactDate trimmed = Some []
         then parseDate (take 4 trimmed @ ''-'' @ take 2 (drop 4 trimmed) @ ''-'' @ take 2 (drop 6 trimmed)
                 @ ''T00:00:00Z'')
         else parseDate trimmed)"

text \<open>\<^verbatim>\<open>/^\d{8}$/.test(comp.dtstart.replace(/[^\d]/g, ''))\<close>\<close>

definition isAllDay :: "string \<Rightarrow> bool" where
  "isAllDay s = (length (filter isDigit s) = 8)"

definition compEndOf :: "(string \<Rightarrow> date) \<Rightarrow> CalendarComponent \<Rightarrow> date" where
  "compEndOf parseDate c =
     (if truthy (dtend c) then parseICalDate parseDate (the (dtend c))
      else if isAllDay (the (dtstart c)) then addDay (parseICalDate parseDate (the (dtstart c)))
      else parseICalDate parseDate (the (dtstart c)))"

text \<open>The predicate of the filter; \<open>startDate\<close> and \<open>endDate\<close> are \<open>None\<close> for \<^verbatim>\<open>null\<close>.\<close>

definition inTimeRange :: "(string \<Rightarrow> date) \<Rightarrow> date option \<Rightarrow> date option \<Rightarrow> CalendarComponent \<Rightarrow> bool" where
  "inTimeRange parseDate startDate endDate c =
     (if \<not> truthy (dtstart c) then False
      else if present startDate \<and> dateLess (compEndOf parseDate c) (the startDate) then False
      else if present endDate \<and> dateLess (the endDate) (parseICalDate parseDate (the (dtstart c))) then False
      else True)"

definition filterByTimeRange ::
  "(string \<Rightarrow> date) \<Rightarrow> CalendarComponent list \<Rightarrow> string option \<Rightarrow> string option \<Rightarrow> CalendarComponent list" where
  "filterByTimeRange parseDate comps start end =
     (if \<not> truthy start \<and> \<not> truthy end then comps
      else
        (let startDate = (if truthy start then Some (parseDate (the start)) else None);
             endDate = (if truthy end then Some (parseDate (the end)) else None)
         in filter (inTimeRange parseDate startDate endDate) comps))"

subsubsection \<open>filterByJmesExpression\<close>

text \<open>
  The values that a path resolves to. Of the properties of a value the model has
  its own ones, the \<^verbatim>\<open>length\<close> and the elements of a string and of an array;
  the methods that a value inherits from its prototype are not in the model.
\<close>

datatype jsval = JUndefined | JString string | JNumber jsnum | JArray "string list"

definition optString :: "string option \<Rightarrow> jsval" where
  "optString v = (case v of None \<Rightarrow> JUndefined | Some s \<Rightarrow> JString s)"

text \<open>\<^verbatim>\<open>comp[key]\<close>\<close>

definition componentProp :: "CalendarComponent \<Rightarrow> string \<Rightarrow> jsval" where
  "componentProp c key =
     (if key = ''uid'' then optString (uid c)
      else if key = ''componentType'' then optString (componentType c)
      else if key = ''summary'' then optString (summary c)
      else if key = ''dtstart'' then optString (dtstart c)
      else if key = ''dtend'' then optString (dtend c)
      else if key = ''categories'' then (case categories c of None \<Rightarrow> JUndefined | Some cs \<Rightarrow> JArray cs)
      else if key = ''status'' then optString (status c)
      else if key = ''priority'' then (case priority c of None \<Rightarrow> JUndefined | Some n \<Rightarrow> JNumber n)
      else if key = ''description'' then optString (description c)
      else if key = ''location'' then optString (location c)
      else optString (map_of (others c) key))"

text \<open>\<^verbatim>\<open>value?.[key]\<close> for a value that is not the component\<close>

definition isIndexKey :: "string \<Rightarrow> bool" where
  "isIndexKey key = (key \<noteq> [] \<and> list_all isDigit key \<and> (key = ''0'' \<or> take 1 key \<noteq> ''0''))"

definition valueProp :: "jsval \<Rightarrow> string \<Rightarrow> jsval" where
  "valueProp v key =
     (case v of
        JString s \<Rightarrow>
          (if key = ''length'' then JNumber (Num (int (length s)))
           else if isIndexKey key \<and> digitsVal key < length s then JString [s ! digitsVal key]
           else JUndefined)
      | JArray xs \<Rightarrow>
          (if key = ''length'' then JNumber (Num (int (length xs)))
           else if isIndexKey key \<and> digitsVal key < length xs then JString (xs ! digitsVal key)
           else JUndefined)
      | _ \<Rightarrow> JUndefined)"

text \<open>\<^verbatim>\<open>value?.[index]\<close> for the number \<open>index\<close>: the property named by the number\<close>

definition valueIndex :: "jsval \<Rightarrow> jsnum \<Rightarrow> jsval" where
  "valueIndex v index = valueProp v (showNum index)"

text \<open>
  The state of the loop of \<open>getNestedProperty\<close> is the component itself, before the
  first key, or a value.
\<close>

datatype cursor = AtComponent | AtValue jsval

definition lookupKey :: "CalendarComponent \<Rightarrow> cursor \<Rightarrow> string \<Rightarrow> jsval" where
  "lookupKey c cur key = (case cur of AtComponent \<Rightarrow> componentProp c key | AtValue v \<Rightarrow> valueProp v key)"

definition stepKey :: "CalendarComponent \<Rightarrow> cursor \<Rightarrow> string \<Rightarrow> jsval" where
  "stepKey c cur key =
     (if includesStr key ''['' \<and> includesStr key '']''
      then
        (let arrayKey = hd (splitStr ''['' key);
             indexStr = the (nthOpt (splitStr ''['' key) 1);
             index = parseInt (replaceFirst '']'' [] indexStr)
         in valueIndex (lookupKey c cur arrayKey) index)
      else lookupKey c cur key)"

fun walkKeys :: "CalendarComponent \<Rightarrow> cursor \<Rightarrow> string list \<Rightarrow> jsval" where
  "walkKeys c cur [] = (case cur of AtComponent \<Rightarrow> JUndefined | AtValue v \<Rightarrow> v)"
| "walkKeys c cur (key # keys) =
     (let v = stepKey c cur key
      in if v = JUndefined then JUndefined else walkKeys c (AtValue v) keys)"

definition getNestedProperty :: "CalendarComponent \<Rightarrow> string \<Rightarrow> jsval" where
  "getNestedProperty c path = walkKeys c AtComponent (splitStr ''.'' path)"

text \<open>A regular expression without anchors is tried at every position, from the left.\<close>

fun findMatch :: "(string \<Rightarrow> 'a option) \<Rightarrow> string \<Rightarrow> 'a option" where
  "findMatch m [] = m []"
| "findMatch m (x # xs) = (case m (x # xs) of Some r \<Rightarrow> Some r | None \<Rightarrow> findMatch m xs)"

definition isQuote :: "char \<Rightarrow> bool" where
  "isQuote c = (c = SQUOTE \<or> c = DQUOTE)"

text \<open>\<^verbatim>\<open>/contains\(([^,]+),\s*['"]([^'"]+)['"]\)/\<close> at the start of the text: the two groups.\<close>

definition containsAt :: "string \<Rightarrow> (string \<times> string) option" where
  "containsAt s =
     (let r = drop (length ''contains('') s;
          path = takeWhile (\<lambda>c. c \<noteq> CHR '','') r;
          r1 = drop (length path) r;
          r2 = dropWhile isSpace (drop 1 r1);
          searchValue = takeWhile (\<lambda>c. \<not> isQuote c) (drop 1 r2);
          r3 = drop (length searchValue) (drop 1 r2)
      in if prefix ''contains('' s \<and> path \<noteq> [] \<and> take 1 r1 = '','' \<and> list_all isQuote (take 1 r2)
            \<and> r2 \<noteq> [] \<and> searchValue \<noteq> [] \<and> list_all isQuote (take 1 r3) \<and> r3 \<noteq> []
            \<and> take 1 (drop 1 r3) = '')''
         then Some (path, searchValue) else None)"

definition isOpChar :: "char \<Rightarrow> bool" where
  "isOpChar c = (c = CHR ''>'' \<or> c = CHR ''<'' \<or> c = CHR ''='')"

text \<open>\<^verbatim>\<open>/length\(([^)]+)\)\s*([><=]+)\s*(\d+)/\<close> at the start of the text: the three groups.\<close>

definition lengthAt :: "string \<Rightarrow> (string \<times> string \<times> string) option" where
  "lengthAt s =
     (let r = drop (length ''length('') s;
          path = takeWhile (\<lambda>c. c \<noteq> CHR '')'') r;
          r1 = drop (length path) r;
          r2 = dropWhile isSpace (drop 1 r1);
          operator = takeWhile isOpChar r2;
          r3 = dropWhile isSpace (drop (length operator) r2);
          countStr = takeWhile isDigit r3
      in if prefix ''length('' s \<and> path \<noteq> [] \<and> take 1 r1 = '')'' \<and> operator \<noteq> []
            \<and> countStr \<noteq> []
         then Some (path, operator, countStr) else None)"

text \<open>The \<^verbatim>\<open>switch\<close> on the operator.\<close>

definition compareLength :: "string \<Rightarrow> int \<Rightarrow> int \<Rightarrow> bool" where
  "compareLength operator len expectedCount =
     (if operator = ''>'' then len > expectedCount
      else if operator = ''<'' then len < expectedCount
      else if operator = ''>='' then len \<ge> expectedCount
      else if operator = ''<='' then len \<le> expectedCount
      else if operator = ''=='' then len = expectedCount
      else False)"

definition lengthFilter :: "string \<times> string \<times> string \<Rightarrow> CalendarComponent \<Rightarrow> bool" where
  "lengthFilter m c =
     (case getNestedProperty c (trim (fst m)) of
        JArray arrayValue \<Rightarrow>
          compareLength (fst (snd m)) (int (length arrayValue)) (int (digitsVal (snd (snd m))))
      | _ \<Rightarrow> False)"

definition containsFilter :: "string \<times> string \<Rightarrow> CalendarComponent \<Rightarrow> bool" where
  "containsFilter m c =
     (case getNestedProperty c (trim (fst m)) of
        JString actualValue \<Rightarrow> includesStr actualValue (snd m)
      | _ \<Rightarrow> False)"

definition equalsFilter :: "string \<Rightarrow> CalendarComponent \<Rightarrow> bool" where
  "equalsFilter jmesFilter c =
     (let parts = map trim (splitStr ''=='' jmesFilter);
          path = hd parts;
          expectedValue = the (nthOpt parts 1);
          cleanExpected = filter (\<lambda>ch. \<not> isQuote ch) expectedValue
      in getNestedProperty c path = JString cleanExpected)"

definition filterByJmesExpression :: "CalendarComponent list \<Rightarrow> string \<Rightarrow> CalendarComponent list" where
  "filterByJmesExpression comps jmesFilter =
     (if includesStr jmesFilter ''=='' then filter (equalsFilter jmesFilter) comps
      else if includesStr jmesFilter ''contains'' \<and> present (findMatch containsAt jmesFilter)
        then filter (containsFilter (the (findMatch containsAt jmesFilter))) comps
      else if includesStr jmesFilter ''length('' \<and> present (findMatch lengthAt jmesFilter)
        then filter (lengthFilter (the (findMatch lengthAt jmesFilter))) comps
      else comps)"

record Filters =
  flt_category :: "string option"
  flt_timeRange :: "(string option \<times> string option) option"
  flt_status :: "string option"
  flt_uid :: "string option"
  flt_jmesFilter :: "string option"

definition combineFilters ::
  "(string \<Rightarrow> date) \<Rightarrow> CalendarComponent list \<Rightarrow> Filters \<Rightarrow> CalendarComponent list" where
  "combineFilters parseDate comps filters =
     (let f1 = (if truthy (flt_category filters)
                then filterByCategory comps (the (flt_category filters)) else comps);
          f2 = (if present (flt_timeRange filters)
                then filterByTimeRange parseDate f1 (fst (the (flt_timeRange filters)))
                       (snd (the (flt_timeRange filters)))
                else f1);
          f3 = (if truthy (flt_status filters) then filterByStatus f2 (the (flt_status filters)) else f2);
          f4 = (if truthy (flt_uid filters) then filterByUid f3 (the (flt_uid filters)) else f3)
      in if truthy (flt_jmesFilter filters)
         then filterByJmesExpression f4 (the (flt_jmesFilter filters)) else f4)"

subsubsection \<open>An instance of the date parser, for the examples\<close>

text \<open>
  Modelled from the ECMAScript date-time string format, which \<^verbatim>\<open>new Date(string)\<close>
  reads in every implementation: \<open>isoDate\<close> covers the two UTC forms of the
  examples, \<^verbatim>\<open>YYYY-MM-DD\<close> and \<^verbatim>\<open>YYYY-MM-DDTHH:mm:ssZ\<close>, and is the invalid date on
  any other text.
\<close>

definition isLeap :: "nat \<Rightarrow> bool" where
  "isLeap y = (y mod 4 = 0 \<and> (y mod 100 \<noteq> 0 \<or> y mod 400 = 0))"

definition daysInMonth :: "nat \<Rightarrow> nat \<Rightarrow> nat" where
  "daysInMonth y m =
     (if m = 2 then (if isLeap y then 29 else 28)
      else if m = 4 \<or> m = 6 \<or> m = 9 \<or> m = 11 then 30 else 31)"

text \<open>The number of days from 1970-01-01 to the day \<open>d\<close> of the month \<open>m\<close> of the year \<open>y\<close>.\<close>

definition daysFromCivil :: "nat \<Rightarrow> nat \<Rightarrow> nat \<Rightarrow> int" where
  "daysFromCivil y m d =
     (let y' = (if m \<le> 2 then int y - 1 else int y);
          era = y' div 400;
          yoe = y' - era * 400;
          doy = (153 * (if m > 2 then int m - 3 else int m + 9) + 2) div 5 + int d - 1;
          doe = yoe * 365 + yoe div 4 - yoe div 100 + doy
      in era * 146097 + doe - 719468)"

definition isoDate :: "string \<Rightarrow> date" where
  "isoDate s =
     (let y = digitsVal (take 4 s); m = digitsVal (take 2 (drop 5 s)); d = digitsVal (take 2 (drop 8 s));
          r = drop 10 s;
          h = digitsVal (take 2 (drop 1 r)); mi = digitsVal (take 2 (drop 4 r));
          se = digitsVal (take 2 (drop 7 r))
      in if matchPat [PDigit, PDigit, PDigit, PDigit, PChar (CHR ''-''), PDigit, PDigit,
                      PChar (CHR ''-''), PDigit, PDigit] s = None
            \<or> m < 1 \<or> 12 < m \<or> d < 1 \<or> daysInMonth y m < d
         then None
         else if r = [] then Some (daysFromCivil y m d * 86400000)
         else if matchPat [PChar (CHR ''T''), PDigit, PDigit, PChar (CHR '':''), PDigit, PDigit,
                           PChar (CHR '':''), PDigit, PDigit] r = Some ''Z''
                 \<and> h < 24 \<and> mi < 60 \<and> se < 60
         then Some (daysFromCivil y m d * 86400000 + int h * 3600000 + int mi * 60000 + int se * 1000)
         else None)"

subsubsection \<open>The time-range filter in the words of the specification, and examples\<close>

text \<open>A bound of the filter: \<open>None\<close> when the bound is absent.\<close>

definition boundOf :: "(string \<Rightarrow> date) \<Rightarrow> string option \<Rightarrow> date option" where
  "boundOf parseDate b = (if truthy b then Some (parseDate (the b)) else None)"

text \<open>
  The closed interval from \<open>s\<close> to \<open>e\<close> overlaps the window of the filter: it
  does not end before a start bound nor begin after an end bound. A date that is
  invalid is before nothing and after nothing.
\<close>

definition overlapsClosed :: "date \<Rightarrow> date \<Rightarrow> date option \<Rightarrow> date option \<Rightarrow> bool" where
  "overlapsClosed s e fs fe =
     ((case fs of None \<Rightarrow> True | Some f \<Rightarrow> \<not> dateLess e f)
      \<and> (case fe of None \<Rightarrow> True | Some f \<Rightarrow> \<not> dateLess f s))"

text \<open>
  The interval from \<open>s\<close> to \<open>e\<close> without its end, as the specification writes
  the interval of an all-day component, overlaps the window.
\<close>

definition overlapsHalfOpen :: "int \<Rightarrow> int \<Rightarrow> int option \<Rightarrow> int option \<Rightarrow> bool" where
  "overlapsHalfOpen s e fs fe =
     (s < e \<and> (case fs of None \<Rightarrow> True | Some f \<Rightarrow> f < e) \<and> (case fe of None \<Rightarrow> True | Some f \<Rightarrow> s \<le> f))"

definition allDayComponent :: CalendarComponent where
  "allDayComponent = emptyComponent\<lparr>uid := Some ''a1'', componentType := Some ''VEVENT'',
     dtstart := Some ''20240115''\<rparr>"

definition timedComponent :: CalendarComponent where
  "timedComponent = emptyComponent\<lparr>uid := Some ''t1'', componentType := Some ''VEVENT'',
     dtstart := Some ''20240120T140000Z'', dtend := Some ''20240120T150000Z''\<rparr>"

definition twoCategories :: "CalendarComponent list" where
  "twoCategories = [emptyComponent\<lparr>uid := Some ''e1'', componentType := Some ''VEVENT'',
     categories := Some [''Work'', ''Important'']\<rparr>]"

subsection \<open>Components that the serialised form can carry\<close>

text \<open>No backslash of the text is followed by the letter n.\<close>

fun noEscapedN :: "string \<Rightarrow> bool" where
  "noEscapedN (x # y # r) = ((x \<noteq> BSL \<or> y \<noteq> CHR ''n'') \<and> noEscapedN (y # r))"
| "noEscapedN r = True"

text \<open>
  A text property survives escaping and unescaping: it has no carriage
  return (the serialiser writes it as a line feed) and no backslash before an n
  (the parser reads the two as a line feed), and its escaped form does not end
  with white space, which the parser trims from a line.
\<close>

definition textOk :: "string \<Rightarrow> bool" where
  "textOk s = (CR \<notin> set s \<and> noEscapedN s \<and> (s = [] \<or> \<not> isSpace (last (escapeValue s))))"

text \<open>
  A category: as a text property, and its escaped form has no white space at
  either end and no backslash at the end, which would escape the comma after it.
\<close>

definition categoryOk :: "string \<Rightarrow> bool" where
  "categoryOk s = (CR \<notin> set s \<and> noEscapedN s \<and> trim (escapeValue s) = escapeValue s
     \<and> (s = [] \<or> last s \<noteq> BSL))"

text \<open>A value that is written as it is: it is one line, without white space at its end.\<close>

definition rawOk :: "string \<Rightarrow> bool" where
  "rawOk s = (LF \<notin> set s \<and> (s = [] \<or> \<not> isSpace (last s)))"

definition optAll :: "('a \<Rightarrow> bool) \<Rightarrow> 'a option \<Rightarrow> bool" where
  "optAll P v = (case v of None \<Rightarrow> True | Some x \<Rightarrow> P x)"

text \<open>
  The conditions under which the lines of a component are read back: it has an
  identifier, its type is one of the three kinds, and its values fit on their
  lines. A priority is an integer that JavaScript prints in full.
\<close>

definition serialisable :: "CalendarComponent \<Rightarrow> bool" where
  "serialisable c =
     (truthy (uid c) \<and> optAll rawOk (uid c)
      \<and> isBegin (''BEGIN:'' @ compTypeOf c) \<and> CHR '':'' \<notin> set (compTypeOf c) \<and> rawOk (compTypeOf c)
      \<and> optAll textOk (summary c) \<and> optAll textOk (description c) \<and> optAll textOk (location c)
      \<and> optAll rawOk (status c)
      \<and> optAll (\<lambda>p. case p of NaN \<Rightarrow> True | Num i \<Rightarrow> \<bar>i\<bar> < 2 ^ 53) (priority c)
      \<and> optAll (list_all categoryOk) (categories c))"

text \<open>What the parser reads from the lines of a component.\<close>

definition reparsed :: "CalendarComponent \<Rightarrow> CalendarComponent" where
  "reparsed c =
     \<lparr>uid = uid c,
      componentType = Some (compTypeOf c),
      summary = (if truthy (summary c) then summary c else None),
      dtstart = (if truthy (dtstart c) then Some (stripDate (the (dtstart c))) else None),
      dtend = (if truthy (dtend c) then Some (stripDate (the (dtend c))) else None),
      categories = (case categories c of None \<Rightarrow> None | Some cats \<Rightarrow> (if cats \<noteq> [] then Some cats else None)),
      status = (if truthy (status c) then Some (toUpperCase (the (status c))) else None),
      priority = (if truthyNum (priority c) then priority c else None),
      description = (if truthy (description c) then description c else None),
      location = (if truthy (location c) then location c else None),
      others = []\<rparr>"

text \<open>
  The components that the round trip preserves. The type does not end in white
  space (the parser trims the line of the serialiser). A text field, the status
  and a date, when present, are not empty (the serialiser writes no line for an
  empty value). A text field and each category satisfy \<open>textOk\<close> and
  \<open>categoryOk\<close>. The priority, when present, is an integer other than zero (the
  serialiser writes no line for 0 or \<^verbatim>\<open>NaN\<close>) that JavaScript prints in full.
\<close>

definition noTrailingSpace :: "string \<Rightarrow> bool" where
  "noTrailingSpace s = (s = [] \<or> \<not> isSpace (last s))"

definition populated :: "string option \<Rightarrow> bool" where
  "populated v = (v \<noteq> Some [])"

definition preserved :: "CalendarComponent \<Rightarrow> bool" where
  "preserved c =
     (optAll noTrailingSpace (componentType c)
      \<and> populated (summary c) \<and> populated (description c) \<and> populated (location c)
      \<and> populated (status c) \<and> populated (dtstart c) \<and> populated (dtend c)
      \<and> optAll textOk (summary c) \<and> optAll textOk (description c) \<and> optAll textOk (location c)
      \<and> optAll (list_all categoryOk) (categories c)
      \<and> optAll (\<lambda>p. case p of NaN \<Rightarrow> False | Num i \<Rightarrow> i \<noteq> 0 \<and> \<bar>i\<bar> < 2 ^ 53) (priority c))"

text \<open>
  A component as the round trip returns it: the start and the end without what
  is not a digit, \<open>T\<close> or \<open>Z\<close>, which removes the annotation of a time zone, and
  without the extension properties, which the serialiser does not write.
\<close>

definition stripped :: "CalendarComponent \<Rightarrow> CalendarComponent" where
  "stripped c = c\<lparr>dtstart := map_option stripDate (dtstart c),
                  dtend := map_option stripDate (dtend c),
                  others := []\<rparr>"

text \<open>
  An event with categories, a description, a location and the escapes of a comma,
  a semicolon and a line feed; its start has a time zone and it has two
  extension properties.
\<close>

definition escapedDoc :: string where
  "escapedDoc = join [CR, LF]
     [''BEGIN:VCALENDAR'',
      ''VERSION:2.0'',
      ''BEGIN:VEVENT'',
      ''UID:event1@example.com'',
      ''DTSTAMP:20240101T000000Z'',
      ''SUMMARY:Review'' @ [BSL] @ '', plan'' @ [BSL] @ ''; decide'',
      ''DTSTART;TZID=Europe/Berlin:20240115T100000'',
      ''DTEND:20240115T110000Z'',
      ''DESCRIPTION:Line one'' @ [BSL] @ ''nLine two'',
      ''LOCATION:Room A'' @ [BSL] @ '', Building 1'',
      ''STATUS:confirmed'',
      ''PRIORITY:1'',
      ''CATEGORIES:Work,Team'' @ [BSL] @ '',Ops'',
      ''X-COLOR:blue'',
      ''END:VEVENT'',
      ''END:VCALENDAR'']"

text \<open>A task with the priority 0, and an event whose type is followed by a colon.\<close>

definition undefinedPriorityDoc :: string where
  "undefinedPriorityDoc = join [CR, LF]
     [''BEGIN:VCALENDAR'',
      ''BEGIN:VTODO'',
      ''UID:task1@example.com'',
      ''SUMMARY:File the report'',
      ''PRIORITY:0'',
      ''END:VTODO'',
      ''END:VCALENDAR'']"

definition typeColonDoc :: string where
  "typeColonDoc = join [LF]
     [''BEGIN:VEVENT :x'',
      ''UID:e1'',
      ''END:VEVENT'']"

text \<open>A task whose only property besides the identifier is the priority 0.\<close>

definition zeroPriorityDoc :: string where
  "zeroPriorityDoc = join [LF]
     [''BEGIN:VTODO'',
      ''UID:t1'',
      ''PRIORITY:0'',
      ''END:VTODO'']"

text \<open>The component that \<open>zeroPriorityDoc\<close> holds.\<close>

definition zeroPriorityTask :: CalendarComponent where
  "zeroPriorityTask = emptyComponent
     \<lparr>uid := Some ''t1'', componentType := Some ''VTODO'', priority := Some (Num 0)\<rparr>"

text \<open>
  The escaped form, character by character, and the forms after each of the
  first three replacements of \<open>unescapeValue\<close>.
\<close>

definition esc0 :: "char \<Rightarrow> string" where
  "esc0 x =
     (if x = BSL then [BSL, BSL] else if x = CHR '';'' then [BSL, CHR '';'']
      else if x = CHR '','' then [BSL, CHR '',''] else if x = LF then [BSL, CHR ''n''] else [x])"

definition esc1 :: "char \<Rightarrow> string" where
  "esc1 x =
     (if x = BSL then [BSL, BSL] else if x = CHR '';'' then [BSL, CHR '';'']
      else if x = CHR '','' then [BSL, CHR '',''] else [x])"

definition esc2 :: "char \<Rightarrow> string" where
  "esc2 x = (if x = BSL then [BSL, BSL] else if x = CHR '';'' then [BSL, CHR '';''] else [x])"

definition esc3 :: "char \<Rightarrow> string" where
  "esc3 x = (if x = BSL then [BSL, BSL] else [x])"

text \<open>Every comma of the text has a backslash before it; \<open>prev\<close> is the character before the text.\<close>

fun noBareComma :: "char option \<Rightarrow> string \<Rightarrow> bool" where
  "noBareComma prev [] = True"
| "noBareComma prev (x # xs) = ((x = CHR '','' \<longrightarrow> prev = Some BSL) \<and> noBareComma (Some x) xs)"

text \<open>A line of the serialised form: no line feed in it, and it starts with no space nor tab.\<close>

definition lineOk :: "string \<Rightarrow> bool" where
  "lineOk l = (LF \<notin> set l \<and> take 1 l \<noteq> '' '' \<and> take 1 l \<noteq> [TAB] \<and> l \<noteq> [])"

text \<open>The state of the parser inside a component and between components.\<close>

definition inState :: "CalendarComponent list \<Rightarrow> CalendarComponent \<Rightarrow> ParseState" where
  "inState acc cur = \<lparr>components = acc, currentComponent = Some cur, inComponent = True\<rparr>"

definition outState :: "CalendarComponent list \<Rightarrow> ParseState" where
  "outState acc = \<lparr>components = acc, currentComponent = None, inComponent = False\<rparr>"

text \<open>
  What the parser has read of a component after the first \<open>k\<close> of its nine
  property lines, in the order in which the serialiser writes them.
\<close>

definition hasCategories :: "CalendarComponent \<Rightarrow> bool" where
  "hasCategories c = (case categories c of None \<Rightarrow> False | Some cats \<Rightarrow> cats \<noteq> [])"

definition readUpTo :: "nat \<Rightarrow> CalendarComponent \<Rightarrow> CalendarComponent" where
  "readUpTo k c =
     \<lparr>uid = (if 1 \<le> k then uid c else None),
      componentType = Some (compTypeOf c),
      summary = (if 2 \<le> k \<and> truthy (summary c) then summary c else None),
      dtstart = (if 3 \<le> k \<and> truthy (dtstart c) then Some (stripDate (the (dtstart c))) else None),
      dtend = (if 4 \<le> k \<and> truthy (dtend c) then Some (stripDate (the (dtend c))) else None),
      categories = (if 9 \<le> k \<and> hasCategories c then categories c else None),
      status = (if 7 \<le> k \<and> truthy (status c) then Some (toUpperCase (the (status c))) else None),
      priority = (if 8 \<le> k \<and> truthyNum (priority c) then priority c else None),
      description = (if 5 \<le> k \<and> truthy (description c) then description c else None),
      location = (if 6 \<le> k \<and> truthy (location c) then location c else None),
      others = []\<rparr>"

text \<open>
  What holds of every component that the parser returns: its type is the text
  after \<^verbatim>\<open>BEGIN:\<close> up to the next colon, its identifier and status are the rest
  of a trimmed line, the status in upper case, and a list of categories has an
  element.
\<close>

definition typeOk :: "string \<Rightarrow> bool" where
  "typeOk t = (isBegin (''BEGIN:'' @ t) \<and> CHR '':'' \<notin> set t \<and> LF \<notin> set t)"

definition parsedOk :: "CalendarComponent \<Rightarrow> bool" where
  "parsedOk c =
     (truthy (componentType c) \<and> optAll typeOk (componentType c)
      \<and> optAll rawOk (uid c) \<and> optAll rawOk (status c)
      \<and> optAll (\<lambda>s. toUpperCase s = s) (status c)
      \<and> categories c \<noteq> Some [])"

definition stateOk :: "ParseState \<Rightarrow> bool" where
  "stateOk st = (list_all (\<lambda>c. truthy (uid c) \<and> parsedOk c) (components st)
     \<and> optAll parsedOk (currentComponent st))"

section \<open>Resource templates (templates.ts)\<close>

text \<open>
  The only pattern of the catalog, \<^verbatim>\<open>^\d{4}-\d{2}-\d{2}(T\d{2}:\d{2}:\d{2}Z?)?$\<close>,
  as the predicate \<^verbatim>\<open>new RegExp(pattern).test(value)\<close>.
\<close>

definition isoDatePattern :: "string \<Rightarrow> bool" where
  "isoDatePattern v =
     (case matchPat [PDigit, PDigit, PDigit, PDigit, PChar (CHR ''-''), PDigit, PDigit,
                    PChar (CHR ''-''), PDigit, PDigit] v of
        None \<Rightarrow> False
      | Some r \<Rightarrow>
          r = [] \<or>
          (case matchPat [PChar (CHR ''T''), PDigit, PDigit, PChar (CHR '':''), PDigit, PDigit,
                           PChar (CHR '':''), PDigit, PDigit] r of
             None \<Rightarrow> False
           | Some r' \<Rightarrow> r' = [] \<or> r' = ''Z''))"

datatype varType = TString | TDate | TDatetime

fun typeName :: "varType \<Rightarrow> string" where
  "typeName TString = ''string''"
| "typeName TDate = ''date''"
| "typeName TDatetime = ''datetime''"

text \<open>
  The interfaces \<^verbatim>\<open>TemplateVariable\<close> and \<^verbatim>\<open>CalDavResourceTemplate\<close>. The field
  \<open>v_pattern\<close> holds the compiled pattern, a predicate on the value.
\<close>

record TemplateVariable =
  v_name :: string
  v_description :: string
  v_required :: bool
  v_type :: varType
  v_pattern :: "(string \<Rightarrow> bool) option"
  v_enum :: "string list option"

record CalDavResourceTemplate =
  t_name :: string
  t_description :: string
  uriTemplate :: string
  mimeType :: string
  variables :: "TemplateVariable list"

definition strVar :: "string \<Rightarrow> string \<Rightarrow> TemplateVariable" where
  "strVar n d = \<lparr>v_name = n, v_description = d, v_required = True, v_type = TString,
     v_pattern = None, v_enum = None\<rparr>"

definition compVar :: TemplateVariable where
  "compVar = \<lparr>v_name = ''comp'', v_description = ''Component type'', v_required = True,
     v_type = TString, v_pattern = None, v_enum = Some [''VEVENT'', ''VTODO'', ''VJOURNAL'']\<rparr>"

definition dateVar :: "string \<Rightarrow> string \<Rightarrow> TemplateVariable" where
  "dateVar n d = \<lparr>v_name = n, v_description = d, v_required = True, v_type = TDatetime,
     v_pattern = Some isoDatePattern, v_enum = None\<rparr>"

definition principalVar :: TemplateVariable where
  "principalVar = strVar ''principal'' ''CalDAV principal path''"

definition calendarIdVar :: TemplateVariable where
  "calendarIdVar = strVar ''calendarId'' ''Calendar collection identifier''"

definition componentsRange :: CalDavResourceTemplate where
  "componentsRange = \<lparr>t_name = ''components-range'',
     t_description = ''Calendar components within a specific time range'',
     uriTemplate = ''caldav://{principal}/{calendarId}/{comp}?start={start}&end={end}'',
     mimeType = ''text/calendar'',
     variables = [principalVar, calendarIdVar, compVar,
       dateVar ''start'' ''Start date/time in ISO format'',
       dateVar ''end'' ''End date/time in ISO format'']\<rparr>"

definition componentsByCat :: CalDavResourceTemplate where
  "componentsByCat = \<lparr>t_name = ''components-by-cat'',
     t_description = ''Tasks filtered by CATEGORIES property'',
     uriTemplate = ''caldav://{principal}/{calendarId}/VTODO?cat={cat}'',
     mimeType = ''text/calendar'',
     variables = [principalVar, calendarIdVar, strVar ''cat'' ''Category name to filter by'']\<rparr>"

definition componentByUid :: CalDavResourceTemplate where
  "componentByUid = \<lparr>t_name = ''component-by-uid'',
     t_description = ''Single calendar component by UID'',
     uriTemplate = ''caldav://{principal}/{calendarId}/{uid}'',
     mimeType = ''text/calendar'',
     variables = [principalVar, calendarIdVar,
       strVar ''uid'' ''Unique identifier of the component'']\<rparr>"

definition componentsQuery :: CalDavResourceTemplate where
  "componentsQuery = \<lparr>t_name = ''components-query'',
     t_description = ''Advanced component filtering with JMES-like expressions'',
     uriTemplate = ''caldav://{principal}/{calendarId}/{comp}?filter={jmes}'',
     mimeType = ''text/calendar'',
     variables = [principalVar, calendarIdVar, compVar,
       strVar ''jmes'' ''JMES-like filter expression'']\<rparr>"

definition metadataListCals :: CalDavResourceTemplate where
  "metadataListCals = \<lparr>t_name = ''metadata-list-cals'',
     t_description = ''JSON metadata listing all available calendars'',
     uriTemplate = ''caldav://{principal}/_meta/calendars'',
     mimeType = ''application/json'',
     variables = [principalVar]\<rparr>"

definition CALDAV_TEMPLATES :: "CalDavResourceTemplate list" where
  "CALDAV_TEMPLATES =
     [componentsRange, componentsByCat, componentByUid, componentsQuery, metadataListCals]"

text \<open>
  A \<^verbatim>\<open>Record<string, string>\<close> is an association list in insertion order, written
  with \<open>assocSet\<close> and read with \<open>map_of\<close>.
\<close>

type_synonym vars = "(string \<times> string) list"

record Validation =
  isValid :: bool
  errors :: "string list"

text \<open>One iteration of the loop over \<^verbatim>\<open>template.variables\<close>.\<close>

definition validateVariable :: "vars \<Rightarrow> string list \<Rightarrow> TemplateVariable \<Rightarrow> string list" where
  "validateVariable vs errs templateVar =
     (if v_required templateVar \<and> \<not> truthy (map_of vs (v_name templateVar))
      then errs @ [''Missing required variable: '' @ v_name templateVar]
      else if \<not> truthy (map_of vs (v_name templateVar)) then errs
      else
        (let val = the (map_of vs (v_name templateVar));
             errs1 =
               (if (v_type templateVar = TDatetime \<or> v_type templateVar = TDate)
                   \<and> (case v_pattern templateVar of None \<Rightarrow> False | Some p \<Rightarrow> \<not> p val)
                then errs @ [''Invalid '' @ typeName (v_type templateVar) @ '' format for ''
                              @ v_name templateVar @ '': '' @ val]
                else errs)
         in (case v_enum templateVar of
               None \<Rightarrow> errs1
             | Some allowed \<Rightarrow>
                 (if val \<in> set allowed then errs1
                  else errs1 @ [''Invalid value for '' @ v_name templateVar @ '': '' @ val
                                 @ ''. Must be one of: '' @ join '', '' allowed]))))"

definition getTemplate :: "string \<Rightarrow> CalDavResourceTemplate option" where
  "getTemplate n = find (\<lambda>t. t_name t = n) CALDAV_TEMPLATES"

definition getAllTemplates :: "CalDavResourceTemplate list" where
  "getAllTemplates = CALDAV_TEMPLATES"

definition validateTemplateVariables :: "string \<Rightarrow> vars \<Rightarrow> Validation" where
  "validateTemplateVariables templateName vs =
     (case find (\<lambda>t. t_name t = templateName) CALDAV_TEMPLATES of
        None \<Rightarrow> \<lparr>isValid = False, errors = [''Unknown template: '' @ templateName]\<rparr>
      | Some template \<Rightarrow>
          (let errs = foldl (validateVariable vs) [] (variables template)
           in \<lparr>isValid = (errs = []), errors = errs\<rparr>))"

section \<open>Percent encoding\<close>

definition hexVal :: "char \<Rightarrow> nat option" where
  "hexVal c =
     (let n = (of_char c :: nat)
      in if 48 \<le> n \<and> n \<le> 57 then Some (n - 48)
         else if 65 \<le> n \<and> n \<le> 70 then Some (n - 55)
         else if 97 \<le> n \<and> n \<le> 102 then Some (n - 87)
         else None)"

definition hexDigit :: "nat \<Rightarrow> char" where
  "hexDigit d = (if d < 10 then char_of (48 + d) else char_of (55 + d))"

definition isAlnum :: "char \<Rightarrow> bool" where
  "isAlnum c =
     (let n = (of_char c :: nat)
      in (48 \<le> n \<and> n \<le> 57) \<or> (65 \<le> n \<and> n \<le> 90) \<or> (97 \<le> n \<and> n \<le> 122))"

text \<open>The characters that \<^verbatim>\<open>encodeURIComponent\<close> leaves as they are.\<close>

definition isUnreserved :: "char \<Rightarrow> bool" where
  "isUnreserved c = (isAlnum c \<or> c \<in> set ''-_.!~*'' \<or> c = SQUOTE \<or> c \<in> set ''()'')"

definition encodeChar :: "char \<Rightarrow> string" where
  "encodeChar c =
     (if isUnreserved c then [c]
      else [CHR ''%'', hexDigit (of_char c div 16), hexDigit (of_char c mod 16)])"

text \<open>
  \<^verbatim>\<open>encodeURIComponent\<close>: every other byte of the text becomes an escape
  \<^verbatim>\<open>%XX\<close>.
\<close>

definition encodeURIComponent :: "string \<Rightarrow> string" where
  "encodeURIComponent s = concat (map encodeChar s)"

text \<open>
  \<^verbatim>\<open>decodeURIComponent\<close> raises \<^verbatim>\<open>URIError\<close> (here \<open>None\<close>) at a \<^verbatim>\<open>%\<close> that
  two hexadecimal digits do not follow, and when the escaped bytes above \<open>0x7F\<close>
  are not the UTF-8 encoding of code points, each byte written as an escape.
\<close>

datatype item = Raw char | Esc nat

fun uriItems :: "string \<Rightarrow> item list option" where
  "uriItems [] = Some []"
| "uriItems (c # cs) =
     (if c = CHR ''%''
      then (case (map hexVal (take 2 cs)) of
              [Some h, Some l] \<Rightarrow> map_option ((#) (Esc (16 * h + l))) (uriItems (drop 2 cs))
            | _ \<Rightarrow> None)
      else map_option ((#) (Raw c)) (uriItems cs))"

definition isCont :: "item \<Rightarrow> bool" where
  "isCont i = (case i of Raw c \<Rightarrow> False | Esc b \<Rightarrow> 128 \<le> b \<and> b \<le> 191)"

definition escIn :: "item \<Rightarrow> nat \<Rightarrow> nat \<Rightarrow> bool" where
  "escIn i lo hi = (case i of Raw c \<Rightarrow> False | Esc b \<Rightarrow> lo \<le> b \<and> b \<le> hi)"

text \<open>The length of the well-formed UTF-8 sequence at the head of the items; 0 if there is none.\<close>

definition utf8Len :: "nat \<Rightarrow> item list \<Rightarrow> nat" where
  "utf8Len b is =
     (if 194 \<le> b \<and> b \<le> 223 then (if list_all isCont (take 1 is) \<and> 1 \<le> length is then 2 else 0)
      else if 224 \<le> b \<and> b \<le> 239
        then (if 2 \<le> length is
                 \<and> escIn (is ! 0) (if b = 224 then 160 else 128) (if b = 237 then 159 else 191)
                 \<and> isCont (is ! 1) then 3 else 0)
      else if 240 \<le> b \<and> b \<le> 244
        then (if 3 \<le> length is
                 \<and> escIn (is ! 0) (if b = 240 then 144 else 128) (if b = 244 then 143 else 191)
                 \<and> isCont (is ! 1) \<and> isCont (is ! 2) then 4 else 0)
      else 0)"

fun utf8Ok :: "item list \<Rightarrow> bool" where
  "utf8Ok [] = True"
| "utf8Ok (Raw c # is) = utf8Ok is"
| "utf8Ok (Esc b # is) =
     (if b < 128 then utf8Ok is
      else (utf8Len b is \<noteq> 0 \<and> utf8Ok (drop (utf8Len b is - 1) is)))"

fun itemChar :: "item \<Rightarrow> char" where
  "itemChar (Raw c) = c"
| "itemChar (Esc b) = char_of b"

definition decodeURIComponent :: "string \<Rightarrow> string option" where
  "decodeURIComponent s =
     (case uriItems s of
        None \<Rightarrow> None
      | Some is \<Rightarrow> (if utf8Ok is then Some (map itemChar is) else None))"

text \<open>
  \<^verbatim>\<open>new URLSearchParams(queryPart).get(name)\<close>: the pairs are separated by \<^verbatim>\<open>&\<close>, a
  name ends at the first \<^verbatim>\<open>=\<close>, \<^verbatim>\<open>+\<close> is a space, and an escape that is not
  well formed stays as it is; the first pair with the name gives the value.
\<close>

fun percentDecodeLenient :: "string \<Rightarrow> string" where
  "percentDecodeLenient [] = []"
| "percentDecodeLenient (c # cs) =
     (if c = CHR ''%''
      then (case (map hexVal (take 2 cs)) of
              [Some h, Some l] \<Rightarrow> char_of (16 * h + l) # percentDecodeLenient (drop 2 cs)
            | _ \<Rightarrow> c # percentDecodeLenient cs)
      else c # percentDecodeLenient cs)"

definition formDecode :: "string \<Rightarrow> string" where
  "formDecode s = percentDecodeLenient (map (\<lambda>c. if c = CHR ''+'' then CHR '' '' else c) s)"

definition searchParams :: "string \<Rightarrow> (string \<times> string) list" where
  "searchParams q =
     map (\<lambda>p. (formDecode (takeWhile (\<lambda>c. c \<noteq> CHR ''='') p),
               formDecode (drop 1 (dropWhile (\<lambda>c. c \<noteq> CHR ''='') p))))
       (filter (\<lambda>p. p \<noteq> []) (splitStr ''&'' q))"

definition searchParamsGet :: "string \<Rightarrow> string \<Rightarrow> string option" where
  "searchParamsGet q n = map_of (searchParams q) n"

section \<open>The URI matcher (uri.ts)\<close>

text \<open>
  A template with its placeholders \<^verbatim>\<open>{name}\<close> found, as
  \<^verbatim>\<open>/{([^}]+)}/g\<close> finds them: a brace that no name and closing brace follow is
  literal text.
\<close>

datatype tok = Lit char | Var string

fun tokens :: "string \<Rightarrow> tok list" where
  "tokens [] = []"
| "tokens (c # cs) =
     (let n = takeWhile (\<lambda>x. x \<noteq> CHR ''}'') cs
      in if c = CHR ''{'' \<and> n \<noteq> [] \<and> length n < length cs
         then Var n # tokens (drop (length n + 1) cs)
         else Lit c # tokens cs)"

definition placeholderNames :: "string \<Rightarrow> string list" where
  "placeholderNames s = concat (map (\<lambda>t. case t of Lit c \<Rightarrow> [] | Var n \<Rightarrow> [n]) (tokens s))"

fun firstSome :: "('a \<Rightarrow> 'b option) \<Rightarrow> 'a list \<Rightarrow> 'b option" where
  "firstSome f [] = None"
| "firstSome f (x # xs) = (case f x of Some r \<Rightarrow> Some r | None \<Rightarrow> firstSome f xs)"

definition isLineTerminator :: "char \<Rightarrow> bool" where
  "isLineTerminator c = (c = LF \<or> c = CR)"

text \<open>
  The generic path pattern, anchored at both ends: the placeholder
  \<^verbatim>\<open>principal\<close> is the group \<^verbatim>\<open>(.+?)\<close>, which tries the shortest text first, any
  other placeholder is \<^verbatim>\<open>([^/?]+)\<close>, which tries the longest first, and the
  literal text of the catalog's templates has no character special in a regular
  expression. The result lists the named groups in their order.
\<close>

primrec matchToks :: "tok list \<Rightarrow> string \<Rightarrow> (string \<times> string) list option" where
  "matchToks [] s = (if s = [] then Some [] else None)"
| "matchToks (t # ts) s =
     (case t of
        Lit c \<Rightarrow> (if take 1 s = [c] then matchToks ts (drop 1 s) else None)
      | Var v \<Rightarrow>
          (let k = (if v = ''principal'' then length (takeWhile (\<lambda>x. \<not> isLineTerminator x) s)
                    else length (takeWhile (\<lambda>x. x \<noteq> CHR ''/'' \<and> x \<noteq> CHR ''?'') s));
               ns = (if v = ''principal'' then [1..<Suc k] else rev [1..<Suc k])
           in firstSome (\<lambda>n. map_option ((#) (v, take n s)) (matchToks ts (drop n s))) ns))"

text \<open>
  The errors that the module throws, all of the class \<^verbatim>\<open>Error\<close>, and
  \<^verbatim>\<open>URIError\<close> of \<^verbatim>\<open>decodeURIComponent\<close>; \<open>message\<close> is the text of each.
\<close>

datatype uriError =
    MalformedInput
  | NoMatch string
  | ValidationError "string list"
  | URIMalformed
  | UnknownTemplate string
  | InvalidVariables "string list"
  | MissingVariables "string list"

fun message :: "uriError \<Rightarrow> string" where
  "message MalformedInput = ''URI must start with caldav://''"
| "message (NoMatch uri) = ''No matching template found for URI: '' @ uri"
| "message (ValidationError errs) = ''Invalid URI variables: '' @ join '', '' errs"
| "message URIMalformed = ''URI malformed''"
| "message (UnknownTemplate n) = ''Unknown template: '' @ n"
| "message (InvalidVariables errs) = ''Invalid variables: '' @ join '', '' errs"
| "message (MissingVariables ns) = ''Missing variables: '' @ join '', '' ns"

record ParsedCalDavUri =
  templateName :: string
  p_variables :: vars
  p_template :: CalDavResourceTemplate

text \<open>The decoded value is stored under the key, or the function raises.\<close>

definition setDecoded :: "string \<Rightarrow> string \<Rightarrow> vars \<Rightarrow> uriError + vars" where
  "setDecoded k v vs =
     (case decodeURIComponent v of None \<Rightarrow> Inl URIMalformed | Some d \<Rightarrow> Inr (assocSet k d vs))"

fun setAllDecoded :: "(string \<times> string) list \<Rightarrow> vars \<Rightarrow> uriError + vars" where
  "setAllDecoded [] vs = Inr vs"
| "setAllDecoded ((k, v) # gs) vs =
     (case setDecoded k v vs of Inl e \<Rightarrow> Inl e | Inr vs' \<Rightarrow> setAllDecoded gs vs')"

text \<open>
  The first part of \<open>tryParseWithTemplate\<close>, the match of the path: \<open>Inr None\<close>
  is the result \<^verbatim>\<open>null\<close>.
\<close>

definition matchPath :: "CalDavResourceTemplate \<Rightarrow> string \<Rightarrow> string \<Rightarrow> uriError + vars option" where
  "matchPath template templatePath pathPart =
     (if t_name template = ''components-by-cat'' \<and> templatePath = ''{principal}/{calendarId}/VTODO''
      then
        (if \<not> suffix ''/VTODO'' pathPart then Inr None
         else
           (let parts = splitStr ''/'' (take (length pathPart - 6) pathPart)
            in if length parts < 2 then Inr None
               else
                 (let calendarId = last parts;
                      principal = join ''/'' (butlast parts)
                  in (case setDecoded ''principal'' principal [] of
                        Inl e \<Rightarrow> Inl e
                      | Inr vs \<Rightarrow>
                          (if calendarId \<noteq> []
                           then map_sum id Some (setDecoded ''calendarId'' calendarId vs)
                           else Inr (Some vs))))))
      else if t_name template = ''metadata-list-cals'' \<and> templatePath = ''{principal}/_meta/calendars''
      then
        (if \<not> suffix ''/_meta/calendars'' pathPart then Inr None
         else map_sum id Some
                (setDecoded ''principal'' (take (length pathPart - 16) pathPart) []))
      else
        (case matchToks (tokens templatePath) pathPart of
           None \<Rightarrow> Inr None
         | Some groups \<Rightarrow> map_sum id Some (setAllDecoded groups [])))"

text \<open>The second part, the query parameters.\<close>

definition matchQuery :: "string option \<Rightarrow> string option \<Rightarrow> vars \<Rightarrow> vars option" where
  "matchQuery templateQuery queryPart vs =
     (if truthy templateQuery \<and> truthy queryPart
      then Some (foldl (\<lambda>acc varName.
                   (case searchParamsGet (the queryPart) varName of
                      None \<Rightarrow> acc
                    | Some v \<Rightarrow> assocSet varName v acc))
                 vs (placeholderNames (the templateQuery)))
      else if truthy templateQuery \<and> \<not> truthy queryPart then None
      else if \<not> truthy templateQuery \<and> truthy queryPart then None
      else Some vs)"

definition tryParseWithTemplate :: "string \<Rightarrow> CalDavResourceTemplate \<Rightarrow> uriError + vars option" where
  "tryParseWithTemplate uri template =
     (let pathPart = hd (splitStr ''?'' uri);
          queryPart = nthOpt (splitStr ''?'' uri) 1;
          tparts = splitStr ''?'' (replaceFirst ''caldav://'' [] (uriTemplate template));
          templatePath = hd tparts;
          templateQuery = nthOpt tparts 1
      in (case matchPath template templatePath pathPart of
            Inl e \<Rightarrow> Inl e
          | Inr None \<Rightarrow> Inr None
          | Inr (Some vs) \<Rightarrow> Inr (matchQuery templateQuery queryPart vs)))"

text \<open>
  The comparison function of the sort, and \<^verbatim>\<open>Array.prototype.sort\<close>, which is
  stable: an insertion sort that keeps the order of the elements that compare as
  equal.
\<close>

definition hasLiteral :: "CalDavResourceTemplate \<Rightarrow> bool" where
  "hasLiteral a = (includesStr (uriTemplate a) ''VTODO'' \<or> includesStr (uriTemplate a) ''_meta'')"

definition hasQuery :: "CalDavResourceTemplate \<Rightarrow> bool" where
  "hasQuery a = includesStr (uriTemplate a) ''?''"

definition paramCount :: "CalDavResourceTemplate \<Rightarrow> nat" where
  "paramCount a = length (filter (\<lambda>c. c = CHR ''?'' \<or> c = CHR ''&'') (uriTemplate a))"

definition compareTemplates :: "CalDavResourceTemplate \<Rightarrow> CalDavResourceTemplate \<Rightarrow> int" where
  "compareTemplates a b =
     (if hasLiteral a \<and> \<not> hasLiteral b then - 1
      else if \<not> hasLiteral a \<and> hasLiteral b then 1
      else if hasQuery a \<and> \<not> hasQuery b then - 1
      else if \<not> hasQuery a \<and> hasQuery b then 1
      else if hasQuery a \<and> hasQuery b then int (paramCount b) - int (paramCount a)
      else 0)"

fun insertBy :: "('a \<Rightarrow> 'a \<Rightarrow> int) \<Rightarrow> 'a \<Rightarrow> 'a list \<Rightarrow> 'a list" where
  "insertBy cmp x [] = [x]"
| "insertBy cmp x (y # ys) = (if cmp x y \<le> 0 then x # y # ys else y # insertBy cmp x ys)"

definition sortBy :: "('a \<Rightarrow> 'a \<Rightarrow> int) \<Rightarrow> 'a list \<Rightarrow> 'a list" where
  "sortBy cmp xs = foldr (insertBy cmp) xs []"

definition sortedTemplates :: "CalDavResourceTemplate list" where
  "sortedTemplates = sortBy compareTemplates getAllTemplates"

text \<open>The loop of \<open>parseCalDavUri\<close> over the sorted templates.\<close>

fun tryTemplates :: "string \<Rightarrow> string \<Rightarrow> CalDavResourceTemplate list \<Rightarrow> uriError + ParsedCalDavUri" where
  "tryTemplates uri withoutProtocol [] = Inl (NoMatch uri)"
| "tryTemplates uri withoutProtocol (t # ts) =
     (case tryParseWithTemplate withoutProtocol t of
        Inl e \<Rightarrow> Inl e
      | Inr None \<Rightarrow> tryTemplates uri withoutProtocol ts
      | Inr (Some vs) \<Rightarrow>
          (let validation = validateTemplateVariables (t_name t) vs
           in if \<not> isValid validation then Inl (ValidationError (errors validation))
              else Inr \<lparr>templateName = t_name t, p_variables = vs, p_template = t\<rparr>))"

definition withoutProtocol :: "string \<Rightarrow> string" where
  "withoutProtocol uri = drop (length ''caldav://'') uri"

definition parseCalDavUri :: "string \<Rightarrow> uriError + ParsedCalDavUri" where
  "parseCalDavUri uri =
     (if \<not> prefix ''caldav://'' uri then Inl MalformedInput
      else tryTemplates uri (withoutProtocol uri) sortedTemplates)"

text \<open>
  \<open>buildCalDavUri\<close>. The pattern \<^verbatim>\<open>new RegExp(`{${key}}`, 'g')\<close> is the literal
  text \<^verbatim>\<open>{key}\<close> for a key of letters and digits, and the encoded value has no
  \<^verbatim>\<open>$\<close> that the replacement would read as a reference.
\<close>

definition unreplaced :: "string \<Rightarrow> string list" where
  "unreplaced uri = map (\<lambda>n. ''{'' @ n @ ''}'') (placeholderNames uri)"

definition buildCalDavUri :: "string \<Rightarrow> vars \<Rightarrow> uriError + string" where
  "buildCalDavUri n vs =
     (case getTemplate n of
        None \<Rightarrow> Inl (UnknownTemplate n)
      | Some template \<Rightarrow>
          (let validation = validateTemplateVariables n vs
           in if \<not> isValid validation then Inl (InvalidVariables (errors validation))
              else
                (let uri = foldl (\<lambda>uri (key, val).
                             replaceAll (''{'' @ key @ ''}'') (encodeURIComponent val) uri)
                           (uriTemplate template) vs
                 in if unreplaced uri \<noteq> [] then Inl (MissingVariables (unreplaced uri))
                    else Inr uri)))"

definition isMetadataRequest :: "string \<Rightarrow> bool" where
  "isMetadataRequest n = prefix ''metadata-'' n"

definition getComponentType :: "vars \<Rightarrow> string option" where
  "getComponentType vs = map_of vs ''comp''"

definition getTimeRange :: "vars \<Rightarrow> string option \<times> string option" where
  "getTimeRange vs = (map_of vs ''start'', map_of vs ''end'')"

record FilterParams =
  f_category :: "string option"
  f_jmesFilter :: "string option"
  f_uid :: "string option"

definition getFilterParams :: "vars \<Rightarrow> FilterParams" where
  "getFilterParams vs =
     \<lparr>f_category = (if truthy (map_of vs ''cat'') then map_of vs ''cat'' else None),
      f_jmesFilter = (if truthy (map_of vs ''jmes'') then map_of vs ''jmes'' else None),
      f_uid = (if truthy (map_of vs ''uid'') then map_of vs ''uid'' else None)\<rparr>"

subsection \<open>The priority of a template, in the words of the specification\<close>




subsection \<open>Example variable assignments\<close>

definition metaUidVars :: vars where
  "metaUidVars = [(''principal'', ''p''), (''calendarId'', ''_meta''), (''uid'', ''calendars'')]"

subsection \<open>The shape of an identifier\<close>

text \<open>
  The path and the query of a template, as \<open>tryParseWithTemplate\<close> splits them
  off, and the texts that the match of the path captures before any of them is
  decoded: \<open>None\<close> when the path does not match.
\<close>

definition templatePathOf :: "CalDavResourceTemplate \<Rightarrow> string" where
  "templatePathOf template = hd (splitStr ''?'' (replaceFirst ''caldav://'' [] (uriTemplate template)))"

definition templateQueryOf :: "CalDavResourceTemplate \<Rightarrow> string option" where
  "templateQueryOf template =
     nthOpt (splitStr ''?'' (replaceFirst ''caldav://'' [] (uriTemplate template))) 1"

definition pathGroups :: "CalDavResourceTemplate \<Rightarrow> string \<Rightarrow> (string \<times> string) list option" where
  "pathGroups template pathPart =
     (if t_name template = ''components-by-cat''
         \<and> templatePathOf template = ''{principal}/{calendarId}/VTODO''
      then
        (if \<not> suffix ''/VTODO'' pathPart then None
         else
           (let parts = splitStr ''/'' (take (length pathPart - 6) pathPart)
            in if length parts < 2 then None
               else Some ((''principal'', join ''/'' (butlast parts))
                          # (if last parts \<noteq> [] then [(''calendarId'', last parts)] else []))))
      else if t_name template = ''metadata-list-cals''
         \<and> templatePathOf template = ''{principal}/_meta/calendars''
      then
        (if \<not> suffix ''/_meta/calendars'' pathPart then None
         else Some [(''principal'', take (length pathPart - 16) pathPart)])
      else matchToks (tokens (templatePathOf template)) pathPart)"

text \<open>
  A template matches the shape of an identifier when its path matches and the
  identifier has a query exactly when the template has one.
\<close>

definition shapeMatches :: "CalDavResourceTemplate \<Rightarrow> string \<Rightarrow> bool" where
  "shapeMatches template wp =
     (pathGroups template (hd (splitStr ''?'' wp)) \<noteq> None
      \<and> truthy (templateQueryOf template) = truthy (nthOpt (splitStr ''?'' wp) 1))"

text \<open>Every text that the path of the template captures is decoded without an error.\<close>

definition decodes :: "CalDavResourceTemplate \<Rightarrow> string \<Rightarrow> bool" where
  "decodes template wp =
     (case pathGroups template (hd (splitStr ''?'' wp)) of
        None \<Rightarrow> True
      | Some gs \<Rightarrow> list_all (\<lambda>g. decodeURIComponent (snd g) \<noteq> None) gs)"

subsection \<open>Notions for the round trip of an identifier\<close>

text \<open>A character of ASCII, which \<open>encodeURIComponent\<close> writes as itself or as one escape.\<close>

definition isAscii :: "char \<Rightarrow> bool" where
  "isAscii c = ((of_char c :: nat) < 128)"

text \<open>The characters of an encoded value: the unreserved ones and the percent sign.\<close>

definition encodedChar :: "char \<Rightarrow> bool" where
  "encodedChar c = (isUnreserved c \<or> c = CHR ''%'')"

text \<open>The item that \<open>uriItems\<close> reads back from the encoding of a character.\<close>

definition charItem :: "char \<Rightarrow> item" where
  "charItem c = (if isUnreserved c then Raw c else Esc (of_char c))"

text \<open>
  A template as its tokens: \<open>render\<close> is the text of the tokens, and
  \<open>substTok\<close> is the replacement of one placeholder by a text.
\<close>

fun render :: "tok list \<Rightarrow> string" where
  "render [] = []"
| "render (Lit c # ts) = c # render ts"
| "render (Var n # ts) = ''{'' @ n @ ''}'' @ render ts"

definition substTok :: "string \<Rightarrow> string \<Rightarrow> tok list \<Rightarrow> tok list" where
  "substTok k v ts = concat (map (\<lambda>t. if t = Var k then map Lit v else [t]) ts)"

definition substAll :: "(string \<rightharpoonup> string) \<Rightarrow> tok list \<Rightarrow> tok list" where
  "substAll m ts =
     concat (map (\<lambda>t. case t of Lit c \<Rightarrow> [Lit c]
                         | Var n \<Rightarrow> (case m n of None \<Rightarrow> [Var n] | Some v \<Rightarrow> map Lit v)) ts)"

definition noBrace :: "string \<Rightarrow> bool" where
  "noBrace s = (CHR ''{'' \<notin> set s \<and> CHR ''}'' \<notin> set s)"

fun tokOk :: "tok \<Rightarrow> bool" where
  "tokOk (Lit c) = (c \<noteq> CHR ''{'')"
| "tokOk (Var n) = noBrace n"

section \<open>Query documents (report.ts)\<close>

text \<open>
  The interface \<^verbatim>\<open>CalendarQueryOptions\<close>; \<open>q_timeRange\<close> is the pair of the optional
  bounds \<^verbatim>\<open>start\<close> and \<^verbatim>\<open>end\<close>.
\<close>

record CalendarQueryOptions =
  q_componentType :: "string option"
  q_timeRange :: "(string option \<times> string option) option"
  q_categoryFilter :: "string option"
  q_uid :: "string option"
  q_jmesFilter :: "string option"

definition formatCalDavDateTime :: "string \<Rightarrow> string" where
  "formatCalDavDateTime dateTime =
     (if includesStr dateTime ''T''
      then (if suffix ''Z'' dateTime then dateTime else dateTime @ ''Z'')
      else dateTime @ ''T00:00:00Z'')"

definition escapeXml :: "string \<Rightarrow> string" where
  "escapeXml text =
     replaceAll [SQUOTE] ''&#39;''
       (replaceAll [DQUOTE] ''&quot;''
         (replaceAll ''>'' ''&gt;''
           (replaceAll ''<'' ''&lt;''
             (replaceAll ''&'' ''&amp;'' text))))"

text \<open>\<^verbatim>\<open>timeRange?.start || timeRange?.end\<close>, and the element that both branches push.\<close>

definition hasTimeRange :: "(string option \<times> string option) option \<Rightarrow> bool" where
  "hasTimeRange tr = (case tr of None \<Rightarrow> False | Some (s, e) \<Rightarrow> truthy s \<or> truthy e)"

definition timeRangeElement :: "string \<Rightarrow> (string option \<times> string option) option \<Rightarrow> string list" where
  \<open>timeRangeElement indent tr =
     (if hasTimeRange tr
      then
        (let startAttr = (if truthy (fst (the tr))
                          then '' start="'' @ formatCalDavDateTime (the (fst (the tr))) @ ''"''
                          else []);
             endAttr = (if truthy (snd (the tr))
                        then '' end="'' @ formatCalDavDateTime (the (snd (the tr))) @ ''"''
                        else [])
         in [indent @ ''<C:time-range'' @ startAttr @ endAttr @ ''/>''])
      else [])\<close>

definition calendarQueryParts :: "CalendarQueryOptions \<Rightarrow> string list" where
  \<open>calendarQueryParts options =
     [''<?xml version="1.0" encoding="utf-8"?>'',
      ''<C:calendar-query xmlns:C="urn:ietf:params:xml:ns:caldav" xmlns:D="DAV:">'',
      ''  <D:prop>'',
      ''    <D:getetag/>'',
      ''    <C:calendar-data/>'',
      ''  </D:prop>'']
     @ (if truthy (q_componentType options) \<or> present (q_timeRange options)
           \<or> truthy (q_categoryFilter options) \<or> truthy (q_uid options)
           \<or> truthy (q_jmesFilter options)
        then
          [''  <C:filter>'']
          @ (if truthy (q_componentType options)
             then
               [''    <C:comp-filter name="VCALENDAR">'',
                ''      <C:comp-filter name="'' @ the (q_componentType options) @ ''">'']
               @ timeRangeElement ''        '' (q_timeRange options)
               @ (if truthy (q_categoryFilter options)
                  then [''        <C:prop-filter name="CATEGORIES">'',
                        ''          <C:text-match collation="i;ascii-casemap">''
                          @ escapeXml (the (q_categoryFilter options)) @ ''</C:text-match>'',
                        ''        </C:prop-filter>'']
                  else [])
               @ (if truthy (q_uid options)
                  then [''        <C:prop-filter name="UID">'',
                        ''          <C:text-match collation="i;ascii-casemap">''
                          @ escapeXml (the (q_uid options)) @ ''</C:text-match>'',
                        ''        </C:prop-filter>'']
                  else [])
               @ (if truthy (q_jmesFilter options)
                  then [''        <!-- JMES filter: '' @ escapeXml (the (q_jmesFilter options)) @ '' -->'']
                  else [])
               @ [''      </C:comp-filter>'', ''    </C:comp-filter>'']
             else
               [''    <C:comp-filter name="VCALENDAR">'']
               @ timeRangeElement ''      '' (q_timeRange options)
               @ [''    </C:comp-filter>''])
          @ [''  </C:filter>'']
        else [])
     @ [''</C:calendar-query>'']\<close>

definition buildCalendarQuery :: "CalendarQueryOptions \<Rightarrow> string" where
  "buildCalendarQuery options = join [LF] (calendarQueryParts options)"

definition multigetParts :: "string list \<Rightarrow> string list" where
  \<open>multigetParts hrefs =
     [''<?xml version="1.0" encoding="utf-8"?>'',
      ''<C:calendar-multiget xmlns:C="urn:ietf:params:xml:ns:caldav" xmlns:D="DAV:">'',
      ''  <D:prop>'',
      ''    <D:getetag/>'',
      ''    <C:calendar-data/>'',
      ''  </D:prop>'']
     @ map (\<lambda>href. ''  <D:href>'' @ escapeXml href @ ''</D:href>'') hrefs
     @ [''</C:calendar-multiget>'']\<close>

definition buildMultiget :: "string list \<Rightarrow> string" where
  "buildMultiget hrefs = join [LF] (multigetParts hrefs)"

subsection \<open>An example of options\<close>

definition quoteOptions :: CalendarQueryOptions where
  \<open>quoteOptions = \<lparr>q_componentType = Some ''a"<b'', q_timeRange = Some (Some ''<"'', None),
     q_categoryFilter = Some ''a"<b'', q_uid = None, q_jmesFilter = None\<rparr>\<close>

section \<open>The request handler (handler.ts)\<close>

subsection \<open>JSON.stringify\<close>

text \<open>The values that the handler serialises: strings, arrays and objects.\<close>

datatype json = JsonString string | JsonArray "json list" | JsonObject "(string \<times> json) list"

definition hex4 :: "nat \<Rightarrow> string" where
  "hex4 n = map lowerChar [hexDigit (n div 4096 mod 16), hexDigit (n div 256 mod 16),
     hexDigit (n div 16 mod 16), hexDigit (n mod 16)]"

definition jsonChar :: "char \<Rightarrow> string" where
  "jsonChar c =
     (if c = DQUOTE then [BSL, DQUOTE]
      else if c = BSL then [BSL, BSL]
      else if c = CHR 0x08 then [BSL, CHR ''b'']
      else if c = CHR 0x0C then [BSL, CHR ''f'']
      else if c = LF then [BSL, CHR ''n'']
      else if c = CR then [BSL, CHR ''r'']
      else if c = TAB then [BSL, CHR ''t'']
      else if (of_char c :: nat) < 32 then [BSL, CHR ''u''] @ hex4 (of_char c)
      else [c])"

definition jsonQuote :: "string \<Rightarrow> string" where
  "jsonQuote s = [DQUOTE] @ concat (map jsonChar s) @ [DQUOTE]"

text \<open>\<^verbatim>\<open>JSON.stringify(value)\<close>\<close>

fun stringify :: "json \<Rightarrow> string" where
  "stringify (JsonString s) = jsonQuote s"
| "stringify (JsonArray xs) = ''['' @ join '','' (map stringify xs) @ '']''"
| "stringify (JsonObject kvs) =
     ''{'' @ join '','' (map (\<lambda>kv. jsonQuote (fst kv) @ '':'' @ stringify (snd kv)) kvs) @ ''}''"

text \<open>\<^verbatim>\<open>JSON.stringify(value, null, 2)\<close>, at the indentation \<open>ind\<close>\<close>

fun stringifyPretty :: "string \<Rightarrow> json \<Rightarrow> string" where
  "stringifyPretty ind (JsonString s) = jsonQuote s"
| "stringifyPretty ind (JsonArray xs) =
     (if xs = [] then ''[]''
      else ''['' @ [LF] @ join ('','' @ [LF]) (map (\<lambda>x. ind @ ''  '' @ stringifyPretty (ind @ ''  '') x) xs)
           @ [LF] @ ind @ '']'')"
| "stringifyPretty ind (JsonObject kvs) =
     (if kvs = [] then ''{}''
      else ''{'' @ [LF]
           @ join ('','' @ [LF])
               (map (\<lambda>kv. ind @ ''  '' @ jsonQuote (fst kv) @ '': '' @ stringifyPretty (ind @ ''  '') (snd kv))
                  kvs)
           @ [LF] @ ind @ ''}'')"

subsection \<open>The collaborators\<close>

text \<open>
  What a \<^verbatim>\<open>throw\<close> or a rejected promise carries: an \<^verbatim>\<open>Error\<close> with its message,
  or a value that is not an \<^verbatim>\<open>Error\<close>.
\<close>

datatype thrown = ErrorObj string | NonError

record CalendarCollection =
  col_calendarId :: string
  col_displayName :: string
  col_componentSet :: "string list"
  col_href :: string

record DiscoveryResult =
  d_principal :: string
  d_home :: string
  d_collections :: "CalendarCollection list"

text \<open>
  The network client, the discovery over it, the timer and the clock are outside
  the handler; a request sees them through these values:
  \<^item> \<open>serverUrl\<close> and \<open>username\<close> of the client;
  \<^item> \<open>discover\<close>, what \<^verbatim>\<open>new CalDavDiscovery(client).discover()\<close> resolves to or
    rejects with;
  \<^item> \<open>calendarQuery url options timeout\<close>, what the race of
    \<^verbatim>\<open>client.calendarQuery\<close> against the timer settles to: the
    \<^verbatim>\<open>calendar-data\<close> property of each result, or the rejection, which is
    \<^verbatim>\<open>Error('Request timeout')\<close> when the timer wins;
  \<^item> \<open>nowCheck\<close> and \<open>nowStore\<close>, the two readings of \<^verbatim>\<open>Date.now()\<close>, and
    \<open>isoNow\<close>, the text of \<^verbatim>\<open>new Date().toISOString()\<close>.
\<close>

record Env =
  serverUrl :: string
  username :: string
  discover :: "thrown + DiscoveryResult"
  calendarQuery :: "string \<Rightarrow> CalendarQueryOptions \<Rightarrow> int \<Rightarrow> thrown + string option list"
  nowCheck :: int
  nowStore :: int
  isoNow :: string

record CalDavRequestContext =
  ctx_uri :: string
  ctx_timeout :: "int option"

record CalDavResponse =
  res_content :: string
  res_mimeType :: string
  res_status :: nat

text \<open>The fields of the handler: the cache, an association list by the cache key, and the default timeout.\<close>

record Handler =
  discoveryCache :: "(string \<times> DiscoveryResult \<times> int) list"
  defaultTimeout :: int

definition CACHE_TTL :: int where
  "CACHE_TTL = 300000"

fun cacheSet :: "string \<Rightarrow> 'a \<Rightarrow> (string \<times> 'a) list \<Rightarrow> (string \<times> 'a) list" where
  "cacheSet k v [] = [(k, v)]"
| "cacheSet k v ((k', v') # kvs) = (if k = k' then (k, v) # kvs else (k', v') # cacheSet k v kvs)"

definition getDiscoveryResult :: "Env \<Rightarrow> Handler \<Rightarrow> (thrown + DiscoveryResult) \<times> Handler" where
  "getDiscoveryResult env h =
     (let cacheKey = serverUrl env @ '':'' @ (if username env \<noteq> [] then username env else ''anonymous'')
      in (case map_of (discoveryCache h) cacheKey of
            Some (result, timestamp) \<Rightarrow>
              (if nowCheck env - timestamp < CACHE_TTL then (Inr result, h)
               else (case discover env of
                       Inl e \<Rightarrow> (Inl e, h)
                     | Inr result' \<Rightarrow>
                         (Inr result',
                          h\<lparr>discoveryCache := cacheSet cacheKey (result', nowStore env) (discoveryCache h)\<rparr>)))
          | None \<Rightarrow>
              (case discover env of
                 Inl e \<Rightarrow> (Inl e, h)
               | Inr result' \<Rightarrow>
                   (Inr result',
                    h\<lparr>discoveryCache := cacheSet cacheKey (result', nowStore env) (discoveryCache h)\<rparr>))))"

definition handleMetadataRequest :: "Env \<Rightarrow> ParsedCalDavUri \<Rightarrow> DiscoveryResult \<Rightarrow> thrown + CalDavResponse" where
  "handleMetadataRequest env parsed discovery =
     (if templateName parsed = ''metadata-list-cals''
      then Inr \<lparr>res_content =
                  stringifyPretty []
                    (JsonObject
                      [(''principal'', JsonString (d_principal discovery)),
                       (''home'', JsonString (d_home discovery)),
                       (''calendars'',
                        JsonArray (map (\<lambda>col. JsonObject
                          [(''id'', JsonString (col_calendarId col)),
                           (''displayName'', JsonString (col_displayName col)),
                           (''componentSet'', JsonArray (map JsonString (col_componentSet col))),
                           (''href'', JsonString (col_href col))]) (d_collections discovery))),
                       (''timestamp'', JsonString (isoNow env))]),
                res_mimeType = ''application/json'', res_status = 200\<rparr>
      else Inl (ErrorObj (''Unknown metadata template: '' @ templateName parsed)))"

definition createEmptyCalendar :: string where
  "createEmptyCalendar =
     join [CR, LF] [''BEGIN:VCALENDAR'', ''VERSION:2.0'', ''PRODID:-//MCP CalDAV Server//EN'',
       ''END:VCALENDAR'']"

text \<open>\<open>executeCalendarQuery\<close>, with its own \<^verbatim>\<open>try\<close> and \<^verbatim>\<open>catch\<close>.\<close>

definition executeCalendarQuery :: "Env \<Rightarrow> string \<Rightarrow> CalendarQueryOptions \<Rightarrow> int \<Rightarrow> thrown + string" where
  "executeCalendarQuery env calendarUrl options timeout =
     (case calendarQuery env calendarUrl options timeout of
        Inr result \<Rightarrow>
          (let calendarData = join [LF] (map the (filter truthy result))
           in Inr (if calendarData \<noteq> [] then calendarData else createEmptyCalendar))
      | Inl (ErrorObj m) \<Rightarrow>
          (if m = ''Request timeout'' then Inl (ErrorObj ''CalDAV server request timed out'')
           else Inl (ErrorObj (''CalDAV query failed: '' @ m)))
      | Inl NonError \<Rightarrow> Inl (ErrorObj ''CalDAV query failed: Unknown error''))"

definition handleCalendarRequest ::
  "Env \<Rightarrow> Handler \<Rightarrow> ParsedCalDavUri \<Rightarrow> DiscoveryResult \<Rightarrow> int option \<Rightarrow> thrown + CalDavResponse" where
  "handleCalendarRequest env h parsed discovery timeout =
     (let vs = p_variables parsed
      in (case find (\<lambda>col. Some (col_calendarId col) = map_of vs ''calendarId'') (d_collections discovery) of
            None \<Rightarrow>
              Inl (ErrorObj (''Calendar not found: ''
                     @ (case map_of vs ''calendarId'' of None \<Rightarrow> ''undefined'' | Some i \<Rightarrow> i)))
          | Some calendar \<Rightarrow>
              (let filterParams = getFilterParams vs;
                   queryOptions =
                     \<lparr>q_componentType = getComponentType vs,
                      q_timeRange = Some (getTimeRange vs),
                      q_categoryFilter = f_category filterParams,
                      q_uid = f_uid filterParams,
                      q_jmesFilter = f_jmesFilter filterParams\<rparr>
               in (case executeCalendarQuery env (col_href calendar) queryOptions
                         (case timeout of
                            None \<Rightarrow> defaultTimeout h
                          | Some t \<Rightarrow> (if t \<noteq> 0 then t else defaultTimeout h)) of
                     Inl e \<Rightarrow> Inl e
                   | Inr calendarData \<Rightarrow>
                       (let c0 = parseICalendarData calendarData;
                            c1 = (if truthy (f_category filterParams)
                                  then filterByCategory c0 (the (f_category filterParams)) else c0);
                            c2 = (if truthy (f_uid filterParams)
                                  then filterByUid c1 (the (f_uid filterParams)) else c1);
                            c3 = (if truthy (f_jmesFilter filterParams)
                                  then filterByJmesExpression c2 (the (f_jmesFilter filterParams)) else c2)
                        in Inr \<lparr>res_content = componentsToICalendar c3,
                                 res_mimeType = ''text/calendar'', res_status = 200\<rparr>)))))"

text \<open>The body of the \<^verbatim>\<open>try\<close> block of \<open>handleRequest\<close>.\<close>

definition tryBlock :: "Env \<Rightarrow> Handler \<Rightarrow> CalDavRequestContext \<Rightarrow> (thrown + CalDavResponse) \<times> Handler" where
  "tryBlock env h context =
     (case parseCalDavUri (ctx_uri context) of
        Inl e \<Rightarrow> (Inl (ErrorObj (message e)), h)
      | Inr parsed \<Rightarrow>
          (case getDiscoveryResult env h of
             (Inl e, h') \<Rightarrow> (Inl e, h')
           | (Inr discovery, h') \<Rightarrow>
               (if isMetadataRequest (templateName parsed)
                then (handleMetadataRequest env parsed discovery, h')
                else (handleCalendarRequest env h' parsed discovery (ctx_timeout context), h'))))"

text \<open>The \<^verbatim>\<open>catch\<close> block.\<close>

definition errorResponse :: "Env \<Rightarrow> thrown \<Rightarrow> CalDavResponse" where
  "errorResponse env error =
     \<lparr>res_content =
        stringify (JsonObject
          [(''error'', JsonString (case error of ErrorObj m \<Rightarrow> m | NonError \<Rightarrow> ''Unknown error'')),
           (''timestamp'', JsonString (isoNow env))]),
      res_mimeType = ''application/json'', res_status = 400\<rparr>"

text \<open>
  \<open>handleRequest\<close>: \<open>Inl\<close> would be an exception that reaches the caller, \<open>Inr\<close>
  is the response that the promise resolves to.
\<close>

definition handleRequest :: "Env \<Rightarrow> Handler \<Rightarrow> CalDavRequestContext \<Rightarrow> (thrown + CalDavResponse) \<times> Handler" where
  "handleRequest env h context =
     (case tryBlock env h context of
        (Inl error, h') \<Rightarrow> (Inr (errorResponse env error), h')
      | (Inr response, h') \<Rightarrow> (Inr response, h'))"

subsection \<open>An example environment\<close>

definition exampleDiscovery :: DiscoveryResult where
  "exampleDiscovery = \<lparr>d_principal = ''/principals/john/'', d_home = ''/calendars/john/'',
     d_collections = [\<lparr>col_calendarId = ''work'', col_displayName = ''Work'',
       col_componentSet = [''VEVENT''], col_href = ''/calendars/john/work/''\<rparr>]\<rparr>"

definition exampleEnv :: Env where
  "exampleEnv = \<lparr>serverUrl = ''https://dav.example.com'', username = ''john'',
     discover = Inr exampleDiscovery,
     calendarQuery = (\<lambda>url options timeout. Inl (ErrorObj ''Request timeout'')),
     nowCheck = 1705276800000, nowStore = 1705276800005, isoNow = ''2024-01-15T00:00:00.000Z''\<rparr>"

definition exampleHandler :: Handler where
  "exampleHandler = \<lparr>discoveryCache = [], defaultTimeout = 30000\<rparr>"

section \<open>Escaping and unescaping\<close>

lemma replaceAll_single:
  "replaceAll [c] rep s = concat (map (\<lambda>x. if x = c then rep else [x]) s)"
  by (induction s) auto

lemma replaceNewlines_noCR:
  "CR \<notin> set s \<Longrightarrow> replaceNewlines s = concat (map (\<lambda>x. if x = LF then [BSL, CHR ''n''] else [x]) s)"
  by (induction s) auto

lemma concat_map_concat_map:
  "concat (map f (concat (map g s))) = concat (map (\<lambda>x. concat (map f (g x))) s)"
  by (induction s) simp_all

lemma CR_notin_esc1: "CR \<notin> set s \<Longrightarrow> CR \<notin> set (concat (map esc1 s))"
  by (induction s) (simp_all add: esc1_def)

lemma escapeValue_esc0: "CR \<notin> set s \<Longrightarrow> escapeValue s = concat (map esc0 s)"
proof -
  assume cr: "CR \<notin> set s"
  have 1: "replaceAll '','' [BSL, CHR '','']
       (replaceAll '';'' [BSL, CHR '';''] (replaceAll [BSL] [BSL, BSL] s)) = concat (map esc1 s)"
    unfolding replaceAll_single concat_map_concat_map
    by (rule arg_cong [where f = concat], rule map_cong) (auto simp: esc1_def)
  have 2: "CR \<notin> set (concat (map esc1 s))"
    using cr by (rule CR_notin_esc1)
  have "escapeValue s = concat (map (\<lambda>x. if x = LF then [BSL, CHR ''n''] else [x]) (concat (map esc1 s)))"
    unfolding escapeValue_def 1 using 2 by (rule replaceNewlines_noCR)
  also have "\<dots> = concat (map esc0 s)"
    unfolding concat_map_concat_map
    by (rule arg_cong [where f = concat], rule map_cong) (auto simp: esc1_def esc0_def)
  finally show ?thesis .
qed

text \<open>The replacement of a pattern of two characters by one.\<close>

lemma replace2_hit: "replaceAll [a, b] [r] (a # b # xs) = r # replaceAll [a, b] [r] xs"
  by simp

lemma replace2_other: "x \<noteq> a \<Longrightarrow> replaceAll [a, b] [r] (x # xs) = x # replaceAll [a, b] [r] xs"
  by simp

lemma replace2_miss: "take 1 xs \<noteq> [b] \<Longrightarrow> replaceAll [a, b] [r] (a # xs) = a # replaceAll [a, b] [r] xs"
  by (cases xs) auto

lemma esc0_head_n: "take 1 (concat (map esc0 xs)) = ''n'' \<Longrightarrow> take 1 xs = ''n''"
  by (cases xs) (auto simp: esc0_def split: if_splits)

lemmas replace2 = replace2_hit replace2_other replace2_miss

lemma pass1_step:
  "(x = BSL \<Longrightarrow> take 1 rest \<noteq> ''n'') \<Longrightarrow>
   replaceAll [BSL, CHR ''n''] [LF] (esc0 x @ rest) = esc1 x @ replaceAll [BSL, CHR ''n''] [LF] rest"
  by (simp add: esc0_def esc1_def replace2 del: replaceAll.simps)

lemma pass1: "noEscapedN s \<Longrightarrow> replaceAll [BSL, CHR ''n''] [LF] (concat (map esc0 s)) = concat (map esc1 s)"
proof (induction s)
  case Nil
  then show ?case by simp
next
  case (Cons x xs)
  have ne: "noEscapedN xs" using Cons.prems by (cases xs) auto
  have hd: "x = BSL \<Longrightarrow> take 1 (concat (map esc0 xs)) \<noteq> ''n''"
    using Cons.prems esc0_head_n [of xs] by (cases xs) auto
  show ?case
    using Cons.IH [OF ne] pass1_step [of x "concat (map esc0 xs)"] hd
    by simp
qed

lemma esc1_head: "take 1 (concat (map esc1 xs)) \<noteq> '',''"
  by (cases xs) (auto simp: esc1_def)

lemma pass2_step:
  "take 1 rest \<noteq> '','' \<Longrightarrow>
   replaceAll [BSL, CHR '',''] '','' (esc1 x @ rest) = esc2 x @ replaceAll [BSL, CHR '',''] '','' rest"
  by (simp add: esc1_def esc2_def replace2 del: replaceAll.simps)

lemma pass2: "replaceAll [BSL, CHR '',''] '','' (concat (map esc1 s)) = concat (map esc2 s)"
proof (induction s)
  case Nil
  then show ?case by simp
next
  case (Cons x xs)
  then show ?case
    using pass2_step [where x = x and rest = "concat (map esc1 xs)", OF esc1_head] by simp
qed

lemma esc2_head: "take 1 (concat (map esc2 xs)) \<noteq> '';''"
  by (cases xs) (auto simp: esc2_def)

lemma pass3_step:
  "take 1 rest \<noteq> '';'' \<Longrightarrow>
   replaceAll [BSL, CHR '';''] '';'' (esc2 x @ rest) = esc3 x @ replaceAll [BSL, CHR '';''] '';'' rest"
  by (simp add: esc2_def esc3_def replace2 del: replaceAll.simps)

lemma pass3: "replaceAll [BSL, CHR '';''] '';'' (concat (map esc2 s)) = concat (map esc3 s)"
proof (induction s)
  case Nil
  then show ?case by simp
next
  case (Cons x xs)
  then show ?case
    using pass3_step [where x = x and rest = "concat (map esc2 xs)", OF esc2_head] by simp
qed

lemma pass4_step:
  "replaceAll [BSL, BSL] [BSL] (esc3 x @ rest) = x # replaceAll [BSL, BSL] [BSL] rest"
  by (simp add: esc3_def replace2 del: replaceAll.simps)

lemma pass4: "replaceAll [BSL, BSL] [BSL] (concat (map esc3 s)) = s"
proof (induction s)
  case Nil
  then show ?case by simp
next
  case (Cons x xs)
  then show ?case
    using pass4_step [of x "concat (map esc3 xs)"] by simp
qed

lemma unescape_escape:
  "CR \<notin> set s \<Longrightarrow> noEscapedN s \<Longrightarrow> unescapeValue (escapeValue s) = s"
  by (simp add: unescapeValue_def escapeValue_esc0 pass1 pass2 pass3 pass4 del: replaceAll.simps)

section \<open>The list of categories\<close>

lemma split_no_comma:
  "noBareComma prev s \<Longrightarrow> splitUnescapedComma prev s = [s]"
  by (induction s arbitrary: prev) (auto simp: consHd_def)

lemma split_at_comma:
  "noBareComma prev s \<Longrightarrow> (if s = [] then prev else Some (last s)) \<noteq> Some BSL \<Longrightarrow>
   splitUnescapedComma prev (s @ CHR '','' # r) = s # splitUnescapedComma (Some (CHR '','')) r"
proof (induction s arbitrary: prev)
  case Nil
  then show ?case by simp
next
  case (Cons a s)
  have nb: "noBareComma (Some a) s" using Cons.prems(1) by simp
  have l: "(if s = [] then Some a else Some (last s)) \<noteq> Some BSL"
    using Cons.prems(2) by (auto split: if_splits)
  have nosplit: "\<not> (a = CHR '','' \<and> prev \<noteq> Some BSL)" using Cons.prems(1) by auto
  have "splitUnescapedComma prev ((a # s) @ CHR '','' # r) =
      consHd a (splitUnescapedComma (Some a) (s @ CHR '','' # r))"
    using nosplit by auto
  also have "\<dots> = consHd a (s # splitUnescapedComma (Some (CHR '','')) r)"
    using Cons.IH [OF nb l] by simp
  finally show ?case by (simp add: consHd_def)
qed

lemma noBareComma_esc0: "noBareComma prev (concat (map esc0 s))"
  by (induction s arbitrary: prev) (auto simp: esc0_def)

lemma last_esc0: "s \<noteq> [] \<Longrightarrow> last (concat (map esc0 s)) = BSL \<Longrightarrow> last s = BSL"
  by (induction s rule: rev_induct) (auto simp: esc0_def split: if_splits)

lemma esc0_empty: "concat (map esc0 s) = [] \<longleftrightarrow> s = []"
  by (cases s) (auto simp: esc0_def)

lemma split_join_escaped:
  "list_all categoryOk cats \<Longrightarrow> cats \<noteq> [] \<Longrightarrow> prev \<noteq> Some BSL \<Longrightarrow>
   splitUnescapedComma prev (join '','' (map escapeValue cats)) = map escapeValue cats"
proof (induction cats arbitrary: prev)
  case Nil
  then show ?case by simp
next
  case (Cons c cs)
  have cr: "CR \<notin> set c" and lb: "c = [] \<or> last c \<noteq> BSL"
    using Cons.prems(1) by (auto simp: categoryOk_def)
  have e: "escapeValue c = concat (map esc0 c)" using cr by (rule escapeValue_esc0)
  have nb: "noBareComma prev (escapeValue c)" unfolding e by (rule noBareComma_esc0)
  show ?case
  proof (cases cs)
    case Nil
    then show ?thesis using nb by (simp add: split_no_comma)
  next
    case (Cons d ds)
    have last: "(if escapeValue c = [] then prev else Some (last (escapeValue c))) \<noteq> Some BSL"
    proof (cases "c = []")
      case True
      then show ?thesis using \<open>prev \<noteq> Some BSL\<close> by (simp add: escapeValue_def)
    next
      case False
      then have l: "last (concat (map esc0 c)) \<noteq> BSL" using lb last_esc0 [of c] by blast
      have ne: "concat (map esc0 c) \<noteq> []" using False esc0_empty [of c] by blast
      show ?thesis unfolding e using l ne by (simp only: if_False option.inject not_False_eq_True)
    qed
    have "splitUnescapedComma prev (escapeValue c @ CHR '','' # join '','' (map escapeValue cs))
        = escapeValue c # splitUnescapedComma (Some (CHR '','')) (join '','' (map escapeValue cs))"
      using nb last by (rule split_at_comma)
    moreover have "splitUnescapedComma (Some (CHR '','')) (join '','' (map escapeValue cs)) = map escapeValue cs"
      using Cons.prems(1) Cons by (intro Cons.IH) auto
    ultimately show ?thesis using Cons by simp
  qed
qed

lemma categories_roundtrip:
  assumes "list_all categoryOk cats" and "cats \<noteq> []"
  shows "map (\<lambda>cat. unescapeValue (trim cat))
           (splitUnescapedComma None (join '','' (map escapeValue cats))) = cats"
proof -
  have "map (\<lambda>cat. unescapeValue (trim cat)) (map escapeValue cats) = cats"
    using assms(1)
    by (induction cats) (auto simp: categoryOk_def unescape_escape)
  then show ?thesis using assms by (simp add: split_join_escaped)
qed

section \<open>The lines of a serialised document\<close>

lemma take1_notin: "c \<notin> set l \<Longrightarrow> take 1 l \<noteq> [c]"
  by (cases l) auto

lemma unfoldLines_noLF: "LF \<notin> set l \<Longrightarrow> unfoldLines l = l"
proof (induction l)
  case Nil
  then show ?case by simp
next
  case (Cons x xs)
  have "take 1 xs \<noteq> [LF]" using Cons.prems by (intro take1_notin) simp
  moreover have "x \<noteq> LF" using Cons.prems by auto
  ultimately show ?case using Cons by simp
qed

lemma unfoldLines_line:
  "LF \<notin> set l \<Longrightarrow> take 1 r \<noteq> '' '' \<Longrightarrow> take 1 r \<noteq> [TAB] \<Longrightarrow>
   unfoldLines (l @ CR # LF # r) = l @ CR # LF # unfoldLines r"
proof (induction l)
  case Nil
  then show ?case by simp
next
  case (Cons x xs)
  have "take 1 (xs @ CR # LF # r) \<noteq> [LF]" using Cons.prems(1) by (cases xs) auto
  moreover have "x \<noteq> LF" using Cons.prems(1) by auto
  ultimately show ?case using Cons by simp
qed

lemma splitLines_noLF: "LF \<notin> set l \<Longrightarrow> splitLines l = [l]"
proof (induction l)
  case Nil
  then show ?case by simp
next
  case (Cons x xs)
  have "take 1 xs \<noteq> [LF]" using Cons.prems by (cases xs) auto
  moreover have "x \<noteq> LF" using Cons.prems by auto
  ultimately show ?case using Cons by (simp add: consHd_def)
qed

lemma splitLines_line:
  "LF \<notin> set l \<Longrightarrow> splitLines (l @ CR # LF # r) = l # splitLines r"
proof (induction l)
  case Nil
  then show ?case by simp
next
  case (Cons x xs)
  have "take 1 (xs @ CR # LF # r) \<noteq> [LF]" using Cons.prems(1) by (cases xs) auto
  moreover have "x \<noteq> LF" using Cons.prems(1) by auto
  ultimately show ?case using Cons by (simp add: consHd_def)
qed

lemma join_Cons: "join sep (l # ls) = (if ls = [] then l else l @ sep @ join sep ls)"
  by (cases ls) simp_all

lemma join_head: "list_all lineOk (m # ls) \<Longrightarrow>
   take 1 (join [CR, LF] (m # ls)) \<noteq> '' '' \<and> take 1 (join [CR, LF] (m # ls)) \<noteq> [TAB]"
  by (cases m) (auto simp: lineOk_def join_Cons)

lemma lines_of_join:
  "list_all lineOk ls \<Longrightarrow> ls \<noteq> [] \<Longrightarrow> splitLines (unfoldLines (join [CR, LF] ls)) = ls"
proof (induction ls)
  case Nil
  then show ?case by simp
next
  case (Cons l ls)
  have l: "LF \<notin> set l" using Cons.prems by (simp add: lineOk_def)
  show ?case
  proof (cases ls)
    case Nil
    then show ?thesis using l by (simp add: unfoldLines_noLF splitLines_noLF)
  next
    case (Cons m ms)
    have rest: "list_all lineOk (m # ms)" using Cons.prems Cons by simp
    have hd: "take 1 (join [CR, LF] (m # ms)) \<noteq> '' ''" "take 1 (join [CR, LF] (m # ms)) \<noteq> [TAB]"
      using join_head [OF rest] by simp_all
    have "unfoldLines (join [CR, LF] (l # m # ms)) = l @ CR # LF # unfoldLines (join [CR, LF] (m # ms))"
      using unfoldLines_line [OF l hd] by simp
    then show ?thesis
      using Cons.IH rest l Cons by (simp add: splitLines_line)
  qed
qed

section \<open>Reading one line\<close>

lemma dropWhile_hd: "s \<noteq> [] \<Longrightarrow> \<not> P (hd s) \<Longrightarrow> dropWhile P s = s"
  by (cases s) auto

lemma trim_id: "s \<noteq> [] \<Longrightarrow> \<not> isSpace (hd s) \<Longrightarrow> \<not> isSpace (last s) \<Longrightarrow> trim s = s"
  by (simp add: trim_def dropWhile_hd hd_rev)

lemma trim_prefixed:
  "p \<noteq> [] \<Longrightarrow> \<not> isSpace (hd p) \<Longrightarrow> \<not> isSpace (last p) \<Longrightarrow> v = [] \<or> \<not> isSpace (last v)
   \<Longrightarrow> trim (p @ v) = p @ v"
  by (rule trim_id) (auto simp: last_append)

lemma splitStr_none: "c \<notin> set a \<Longrightarrow> splitStr [c] a = [a]"
  by (induction a) (auto simp: consHd_def)

lemma splitStr_char: "c \<notin> set a \<Longrightarrow> splitStr [c] (a @ c # b) = a # splitStr [c] b"
  by (induction a) (auto simp: consHd_def)

lemma parseLine_outside:
  "\<not> isBegin (trim l) \<Longrightarrow> \<not> isEnd (trim l) \<Longrightarrow> parseLine (outState acc) l = outState acc"
  by (simp add: parseLine_def outState_def Let_def)

lemma parseLine_prop:
  "trim l = l \<Longrightarrow> l \<noteq> [] \<Longrightarrow> \<not> isBegin l \<Longrightarrow> \<not> isEnd l \<Longrightarrow>
   parseLine (inState acc cur) l = inState acc (parseProperty l cur)"
  by (simp add: parseLine_def inState_def Let_def)

lemma isEnd_of_isBegin: "isEnd (''END:'' @ T) = isBegin (''BEGIN:'' @ T)"
  by (simp add: isEnd_def isBegin_def)

lemma not_isBegin_END: "\<not> isBegin (''END:'' @ T)"
  by (simp add: isBegin_def)

lemma isBegin_nonempty: "isBegin (''BEGIN:'' @ T) \<Longrightarrow> T \<noteq> []"
  by (auto simp: isBegin_def)

lemma parseLine_begin:
  assumes "isBegin (''BEGIN:'' @ T)" "CHR '':'' \<notin> set T" "rawOk T"
  shows "parseLine (outState acc) (''BEGIN:'' @ T) = inState acc (emptyComponent\<lparr>componentType := Some T\<rparr>)"
proof -
  have ne: "T \<noteq> []" using assms(1) by (rule isBegin_nonempty)
  have t: "trim (''BEGIN:'' @ T) = ''BEGIN:'' @ T"
    using assms(3) ne by (intro trim_prefixed) (simp_all add: rawOk_def isSpace_def)
  have "splitStr '':'' (''BEGIN'' @ CHR '':'' # T) = ''BEGIN'' # splitStr '':'' T"
    by (rule splitStr_char) simp
  then have s: "splitStr '':'' (''BEGIN:'' @ T) = [''BEGIN'', T]"
    using assms(2) by (simp add: splitStr_none)
  show ?thesis
    unfolding parseLine_def Let_def t s using assms(1)
    by (simp add: outState_def inState_def nthOpt_def)
qed

lemma parseLine_end:
  assumes "isBegin (''BEGIN:'' @ T)" "rawOk T" "truthy (uid cur)"
  shows "parseLine (inState acc cur) (''END:'' @ T) = outState (acc @ [cur])"
proof -
  have ne: "T \<noteq> []" using assms(1) by (rule isBegin_nonempty)
  have t: "trim (''END:'' @ T) = ''END:'' @ T"
    using assms(2) ne by (intro trim_prefixed) (simp_all add: rawOk_def isSpace_def)
  show ?thesis
    unfolding parseLine_def Let_def t using assms(1,3) isEnd_of_isBegin [of T] not_isBegin_END [of T]
    by (simp add: outState_def inState_def)
qed

section \<open>Reading a property\<close>

lemma upper_names:
  "toUpperCase ''UID'' = ''UID''" "toUpperCase ''SUMMARY'' = ''SUMMARY''"
  "toUpperCase ''DTSTART'' = ''DTSTART''" "toUpperCase ''DTEND'' = ''DTEND''"
  "toUpperCase ''CATEGORIES'' = ''CATEGORIES''" "toUpperCase ''STATUS'' = ''STATUS''"
  "toUpperCase ''PRIORITY'' = ''PRIORITY''" "toUpperCase ''DESCRIPTION'' = ''DESCRIPTION''"
  "toUpperCase ''LOCATION'' = ''LOCATION''"
  by code_simp+

lemma parseDateTime_noParams: "parseDateTime v [] = v"
  by (simp add: parseDateTime_def paramLookup_def truthy_def)

lemmas parseProperty_simps = parseProperty_def indexOf_def Let_def consHd_def parseParameters_def
  upper_names parseDateTime_noParams

lemma prop_uid: "parseProperty (''UID:'' @ v) cur = cur\<lparr>uid := Some v\<rparr>"
  by (simp add: parseProperty_simps)

lemma prop_summary: "parseProperty (''SUMMARY:'' @ v) cur = cur\<lparr>summary := Some (unescapeValue v)\<rparr>"
  by (simp add: parseProperty_simps)

lemma prop_dtstart: "parseProperty (''DTSTART:'' @ v) cur = cur\<lparr>dtstart := Some v\<rparr>"
  by (simp add: parseProperty_simps)

lemma prop_dtend: "parseProperty (''DTEND:'' @ v) cur = cur\<lparr>dtend := Some v\<rparr>"
  by (simp add: parseProperty_simps)

lemma prop_description:
  "parseProperty (''DESCRIPTION:'' @ v) cur = cur\<lparr>description := Some (unescapeValue v)\<rparr>"
  by (simp add: parseProperty_simps)

lemma prop_location: "parseProperty (''LOCATION:'' @ v) cur = cur\<lparr>location := Some (unescapeValue v)\<rparr>"
  by (simp add: parseProperty_simps)

lemma prop_status: "parseProperty (''STATUS:'' @ v) cur = cur\<lparr>status := Some (toUpperCase v)\<rparr>"
  by (simp add: parseProperty_simps)

lemma prop_priority: "parseProperty (''PRIORITY:'' @ v) cur = cur\<lparr>priority := Some (parseInt v)\<rparr>"
  by (simp add: parseProperty_simps)

lemma prop_categories:
  "parseProperty (''CATEGORIES:'' @ v) cur =
     cur\<lparr>categories := Some (map (\<lambda>cat. unescapeValue (trim cat)) (splitUnescapedComma None v))\<rparr>"
  by (simp add: parseProperty_simps)

section \<open>Printing and reading an integer\<close>

lemma digit_code: "d < 10 \<Longrightarrow> (of_char (char_of (48 + d :: nat)) :: nat) = 48 + d"
  by simp

lemma isDigit_digit: "d < 10 \<Longrightarrow> isDigit (char_of (48 + d :: nat))"
  by (simp add: isDigit_def)

lemma isDigit_not_space: "isDigit c \<Longrightarrow> \<not> isSpace c"
  by (auto simp: isDigit_def isSpace_def)

lemma isDigit_not_sign: "isDigit c \<Longrightarrow> c \<noteq> CHR ''-'' \<and> c \<noteq> CHR ''+'' \<and> c \<noteq> LF"
  by (auto simp: isDigit_def)

lemma showNat_small: "n < 10 \<Longrightarrow> showNat n = [char_of (48 + n)]"
  by (subst showNat.simps) simp

lemma showNat_large: "\<not> n < 10 \<Longrightarrow> showNat n = showNat (n div 10) @ [char_of (48 + n mod 10)]"
  by (subst showNat.simps) simp

lemma showNat_digits: "list_all isDigit (showNat n) \<and> showNat n \<noteq> []"
proof (induction n rule: showNat.induct)
  case (1 n)
  show ?case
  proof (cases "n < 10")
    case True
    then show ?thesis by (simp add: showNat_small isDigit_digit)
  next
    case False
    then show ?thesis using 1 by (simp add: showNat_large isDigit_digit)
  qed
qed

lemma digitsVal_snoc: "digitsVal (xs @ [c]) = 10 * digitsVal xs + (of_char c - 48)"
  by (simp add: digitsVal_def)

lemma digitsVal_showNat: "digitsVal (showNat n) = n"
proof (induction n rule: showNat.induct)
  case (1 n)
  show ?case
  proof (cases "n < 10")
    case True
    then show ?thesis by (simp add: showNat_small digitsVal_def)
  next
    case False
    then have "digitsVal (showNat (n div 10)) = n div 10" using 1 by simp
    then show ?thesis using False
      by (simp add: showNat_large digitsVal_snoc)
  qed
qed

lemma takeWhile_all: "list_all P xs \<Longrightarrow> takeWhile P xs = xs"
  by (induction xs) auto

lemma parseInt_digits:
  assumes "list_all isDigit ds" "ds \<noteq> []"
  shows "parseInt ds = Num (int (digitsVal ds))" "parseInt (''-'' @ ds) = Num (- int (digitsVal ds))"
proof -
  obtain d r where ds: "ds = d # r" using assms(2) by (cases ds) auto
  have d: "isDigit d" using assms(1) ds by simp
  have sp: "\<not> isSpace d" "d \<noteq> CHR ''-''" "d \<noteq> CHR ''+''"
    using d isDigit_not_space isDigit_not_sign by blast+
  have tw: "takeWhile isDigit (d # r) = d # r" using assms(1) ds takeWhile_all by blast
  show "parseInt ds = Num (int (digitsVal ds))"
    unfolding ds parseInt_def Let_def using sp tw by simp
  show "parseInt (''-'' @ ds) = Num (- int (digitsVal ds))"
    unfolding ds parseInt_def Let_def using sp tw by (simp add: isSpace_def)
qed

lemma parseInt_showNum: "parseInt (showNum (Num i)) = Num i"
  using parseInt_digits [of "showNat (nat i)"] parseInt_digits [of "showNat (nat (- i))"]
    showNat_digits [of "nat i"] showNat_digits [of "nat (- i)"]
  by (simp add: digitsVal_showNat)

lemma showNum_last: "showNum (Num i) \<noteq> [] \<and> \<not> isSpace (last (showNum (Num i))) \<and> LF \<notin> set (showNum (Num i))"
proof -
  have a: "list_all isDigit s \<Longrightarrow> s \<noteq> [] \<Longrightarrow> \<not> isSpace (last s) \<and> LF \<notin> set s" for s
    using isDigit_not_space isDigit_not_sign by (auto simp: list_all_iff)
  show ?thesis
    using a [of "showNat (nat i)"] a [of "showNat (nat (- i))"]
      showNat_digits [of "nat i"] showNat_digits [of "nat (- i)"]
    by auto
qed

section \<open>The values on the lines of a component\<close>

lemma line_prefixed:
  assumes "p \<noteq> []" "LF \<notin> set p" "\<not> isSpace (hd p)" "\<not> isSpace (last p)" "rawOk v"
  shows "lineOk (p @ v)" "trim (p @ v) = p @ v" "p @ v \<noteq> []"
proof -
  show "lineOk (p @ v)"
    using assms by (cases p) (auto simp: lineOk_def rawOk_def isSpace_def)
  show "trim (p @ v) = p @ v"
    using assms by (intro trim_prefixed) (auto simp: rawOk_def)
  show "p @ v \<noteq> []" using assms(1) by simp
qed

lemma dropWhile_shorter: "dropWhile P xs = xs \<or> length (dropWhile P xs) < length xs"
  by (cases xs) (auto simp: less_Suc_eq_le length_dropWhile_le)

lemma length_dropWhile_less: "xs \<noteq> [] \<Longrightarrow> P (hd xs) \<Longrightarrow> length (dropWhile P xs) < length xs"
  by (cases xs) (auto simp: less_Suc_eq_le length_dropWhile_le)

lemma trim_stable_last: "trim e = e \<Longrightarrow> e \<noteq> [] \<Longrightarrow> \<not> isSpace (last e)"
proof
  assume t: "trim e = e" and ne: "e \<noteq> []" and sp: "isSpace (last e)"
  let ?d = "dropWhile isSpace e"
  have "length (trim e) < length e"
  proof (cases "?d = e")
    case True
    have "length (dropWhile isSpace (rev e)) < length (rev e)"
      using ne sp by (intro length_dropWhile_less) (simp_all add: hd_rev)
    then show ?thesis by (simp add: trim_def True)
  next
    case False
    then have "length ?d < length e" using dropWhile_shorter [of isSpace e] by simp
    moreover have "length (trim e) \<le> length ?d"
      using length_dropWhile_le [of isSpace "rev ?d"] by (simp add: trim_def)
    ultimately show ?thesis by simp
  qed
  with t show False by simp
qed

lemma LF_notin_esc0: "LF \<notin> set (concat (map esc0 s))"
  by (induction s) (simp_all add: esc0_def)

lemma LF_notin_escapeValue: "CR \<notin> set s \<Longrightarrow> LF \<notin> set (escapeValue s)"
  by (simp add: escapeValue_esc0 LF_notin_esc0 del: set_concat)

lemma escapeValue_Nil: "escapeValue [] = []"
  by (simp add: escapeValue_def)

lemma escapeValue_nonempty: "CR \<notin> set s \<Longrightarrow> s \<noteq> [] \<Longrightarrow> escapeValue s \<noteq> []"
proof -
  assume cr: "CR \<notin> set s" and ne: "s \<noteq> []"
  have "concat (map esc0 s) \<noteq> []" using ne esc0_empty [of s] by blast
  then show ?thesis unfolding escapeValue_esc0 [OF cr] .
qed

lemma rawOk_text: "textOk s \<Longrightarrow> rawOk (escapeValue s)"
  by (cases "s = []") (auto simp: textOk_def rawOk_def escapeValue_Nil LF_notin_escapeValue)

lemma dateChar_plain: "isDigit x \<or> x = CHR ''T'' \<or> x = CHR ''Z'' \<Longrightarrow> x \<noteq> LF \<and> \<not> isSpace x"
proof (elim disjE)
  assume "isDigit x"
  then show ?thesis using isDigit_not_space isDigit_not_sign by blast
next
  assume "x = CHR ''T''"
  then show ?thesis by (simp add: isSpace_def)
next
  assume "x = CHR ''Z''"
  then show ?thesis by (simp add: isSpace_def)
qed

lemma rawOk_stripDate: "rawOk (stripDate d)"
proof -
  have all: "\<forall>x \<in> set (stripDate d). x \<noteq> LF \<and> \<not> isSpace x"
    using dateChar_plain by (simp add: stripDate_def)
  have "stripDate d \<noteq> [] \<Longrightarrow> \<not> isSpace (last (stripDate d))"
    using all last_in_set by blast
  moreover have "LF \<notin> set (stripDate d)" using all by blast
  ultimately show ?thesis unfolding rawOk_def by blast
qed

lemma rawOk_showNum: "rawOk (showNum (Num i))"
  using showNum_last [of i] by (simp add: rawOk_def)

lemma rawOk_categories: "list_all categoryOk cats \<Longrightarrow> rawOk (join '','' (map escapeValue cats))"
proof (induction cats)
  case Nil
  then show ?case by (simp add: rawOk_def)
next
  case (Cons c cs)
  have c: "LF \<notin> set (escapeValue c)" "escapeValue c = [] \<or> \<not> isSpace (last (escapeValue c))"
    using Cons.prems trim_stable_last [of "escapeValue c"]
    by (auto simp: categoryOk_def LF_notin_escapeValue)
  show ?case
  proof (cases cs)
    case Nil
    then show ?thesis using c by (simp add: rawOk_def)
  next
    case (Cons d ds)
    have r: "rawOk (join '','' (map escapeValue cs))" using Cons.prems Cons.IH by simp
    show ?thesis
      using c r Cons by (auto simp: rawOk_def isSpace_def last_append)
  qed
qed

subsection \<open>Reading back the lines of one component\<close>

section \<open>Reading the lines of a component\<close>

lemma opt_step:
  assumes "b \<Longrightarrow> trim l = l \<and> l \<noteq> [] \<and> \<not> isBegin l \<and> \<not> isEnd l \<and> parseProperty l cur = cur'"
    and "\<not> b \<Longrightarrow> cur = cur'"
  shows "foldl parseLine (inState acc cur) (if b then [l] else []) = inState acc cur'"
  using assms by (cases b) (simp_all add: parseLine_prop)

lemmas prop_cons = prop_uid [simplified] prop_summary [simplified] prop_dtstart [simplified]
  prop_dtend [simplified] prop_description [simplified] prop_location [simplified]
  prop_status [simplified] prop_priority [simplified] prop_categories [simplified]

lemma truthy_the: "truthy v \<Longrightarrow> v = Some (the v) \<and> the v \<noteq> []"
  by (cases v) (simp_all add: truthy_def)

lemma readUpTo_0: "readUpTo 0 c = emptyComponent\<lparr>componentType := Some (compTypeOf c)\<rparr>"
  by (simp add: readUpTo_def emptyComponent_def)

lemma step_uid:
  assumes "serialisable c"
  shows "foldl parseLine (inState acc (readUpTo 0 c)) (if truthy (uid c) then [''UID:'' @ the (uid c)] else [])
         = inState acc (readUpTo 1 c)"
proof (rule opt_step)
  assume "\<not> truthy (uid c)"
  then show "readUpTo 0 c = readUpTo 1 c" using assms by (simp add: serialisable_def)
next
  assume t: "truthy (uid c)"
  have u: "uid c = Some (the (uid c))" using t truthy_the by blast
  have r: "rawOk (the (uid c))" using assms u by (auto simp: serialisable_def optAll_def split: option.splits)
  have "trim (''UID:'' @ the (uid c)) = ''UID:'' @ the (uid c)"
    using r by (intro line_prefixed) (simp_all add: isSpace_def)
  moreover have "parseProperty (''UID:'' @ the (uid c)) (readUpTo 0 c) = readUpTo 1 c"
    using u [symmetric] by (simp add: prop_cons readUpTo_def)
  ultimately show "trim (''UID:'' @ the (uid c)) = ''UID:'' @ the (uid c) \<and> ''UID:'' @ the (uid c) \<noteq> []
      \<and> \<not> isBegin (''UID:'' @ the (uid c)) \<and> \<not> isEnd (''UID:'' @ the (uid c))
      \<and> parseProperty (''UID:'' @ the (uid c)) (readUpTo 0 c) = readUpTo 1 c"
    by (simp add: isBegin_def isEnd_def)
qed

lemma text_value:
  assumes "optAll textOk v" "truthy v"
  shows "rawOk (escapeValue (the v))" "unescapeValue (escapeValue (the v)) = the v" "v = Some (the v)"
proof -
  have v: "v = Some (the v)" using assms(2) truthy_the by blast
  then have t: "textOk (the v)" using assms(1) by (auto simp: optAll_def split: option.splits)
  show "rawOk (escapeValue (the v))" using t by (rule rawOk_text)
  show "unescapeValue (escapeValue (the v)) = the v"
    using t by (simp add: textOk_def unescape_escape)
  show "v = Some (the v)" by (rule v)
qed

lemma step_summary:
  assumes "serialisable c"
  shows "foldl parseLine (inState acc (readUpTo 1 c))
           (if truthy (summary c) then [''SUMMARY:'' @ escapeValue (the (summary c))] else [])
         = inState acc (readUpTo 2 c)"
proof (rule opt_step)
  assume "\<not> truthy (summary c)"
  then show "readUpTo 1 c = readUpTo 2 c" by (simp add: readUpTo_def)
next
  assume t: "truthy (summary c)"
  have o: "optAll textOk (summary c)" using assms by (simp add: serialisable_def)
  note tv = text_value [OF o t]
  let ?l = "''SUMMARY:'' @ escapeValue (the (summary c))"
  have "trim ?l = ?l" using tv(1) by (intro line_prefixed) (simp_all add: isSpace_def)
  moreover have "parseProperty ?l (readUpTo 1 c) = readUpTo 2 c"
    using tv(2) tv(3) [symmetric] t by (simp add: prop_cons readUpTo_def)
  ultimately show "trim ?l = ?l \<and> ?l \<noteq> [] \<and> \<not> isBegin ?l \<and> \<not> isEnd ?l
      \<and> parseProperty ?l (readUpTo 1 c) = readUpTo 2 c"
    by (simp add: isBegin_def isEnd_def)
qed


lemma step_dtstart:
  "foldl parseLine (inState acc (readUpTo 2 c))
     (if truthy (dtstart c) then [''DTSTART:'' @ stripDate (the (dtstart c))] else [])
   = inState acc (readUpTo 3 c)"
proof (rule opt_step)
  assume "\<not> truthy (dtstart c)"
  then show "readUpTo 2 c = readUpTo 3 c" by (simp add: readUpTo_def)
next
  assume t: "truthy (dtstart c)"
  let ?l = "''DTSTART:'' @ stripDate (the (dtstart c))"
  have "trim ?l = ?l" using rawOk_stripDate by (intro line_prefixed) (simp_all add: isSpace_def)
  moreover have "parseProperty ?l (readUpTo 2 c) = readUpTo 3 c"
    using t by (simp add: prop_cons readUpTo_def)
  ultimately show "trim ?l = ?l \<and> ?l \<noteq> [] \<and> \<not> isBegin ?l \<and> \<not> isEnd ?l
      \<and> parseProperty ?l (readUpTo 2 c) = readUpTo 3 c"
    by (simp add: isBegin_def isEnd_def)
qed

lemma step_dtend:
  "foldl parseLine (inState acc (readUpTo 3 c))
     (if truthy (dtend c) then [''DTEND:'' @ stripDate (the (dtend c))] else [])
   = inState acc (readUpTo 4 c)"
proof (rule opt_step)
  assume "\<not> truthy (dtend c)"
  then show "readUpTo 3 c = readUpTo 4 c" by (simp add: readUpTo_def)
next
  assume t: "truthy (dtend c)"
  let ?l = "''DTEND:'' @ stripDate (the (dtend c))"
  have "trim ?l = ?l" using rawOk_stripDate by (intro line_prefixed) (simp_all add: isSpace_def)
  moreover have "parseProperty ?l (readUpTo 3 c) = readUpTo 4 c"
    using t by (simp add: prop_cons readUpTo_def)
  ultimately show "trim ?l = ?l \<and> ?l \<noteq> [] \<and> \<not> isBegin ?l \<and> \<not> isEnd ?l
      \<and> parseProperty ?l (readUpTo 3 c) = readUpTo 4 c"
    by (simp add: isBegin_def isEnd_def)
qed

lemma step_description:
  assumes "serialisable c"
  shows "foldl parseLine (inState acc (readUpTo 4 c))
           (if truthy (description c) then [''DESCRIPTION:'' @ escapeValue (the (description c))] else [])
         = inState acc (readUpTo 5 c)"
proof (rule opt_step)
  assume "\<not> truthy (description c)"
  then show "readUpTo 4 c = readUpTo 5 c" by (simp add: readUpTo_def)
next
  assume t: "truthy (description c)"
  have o: "optAll textOk (description c)" using assms by (simp add: serialisable_def)
  note tv = text_value [OF o t]
  let ?l = "''DESCRIPTION:'' @ escapeValue (the (description c))"
  have "trim ?l = ?l" using tv(1) by (intro line_prefixed) (simp_all add: isSpace_def)
  moreover have "parseProperty ?l (readUpTo 4 c) = readUpTo 5 c"
    using tv(2) tv(3) [symmetric] t by (simp add: prop_cons readUpTo_def)
  ultimately show "trim ?l = ?l \<and> ?l \<noteq> [] \<and> \<not> isBegin ?l \<and> \<not> isEnd ?l
      \<and> parseProperty ?l (readUpTo 4 c) = readUpTo 5 c"
    by (simp add: isBegin_def isEnd_def)
qed

lemma step_location:
  assumes "serialisable c"
  shows "foldl parseLine (inState acc (readUpTo 5 c))
           (if truthy (location c) then [''LOCATION:'' @ escapeValue (the (location c))] else [])
         = inState acc (readUpTo 6 c)"
proof (rule opt_step)
  assume "\<not> truthy (location c)"
  then show "readUpTo 5 c = readUpTo 6 c" by (simp add: readUpTo_def)
next
  assume t: "truthy (location c)"
  have o: "optAll textOk (location c)" using assms by (simp add: serialisable_def)
  note tv = text_value [OF o t]
  let ?l = "''LOCATION:'' @ escapeValue (the (location c))"
  have "trim ?l = ?l" using tv(1) by (intro line_prefixed) (simp_all add: isSpace_def)
  moreover have "parseProperty ?l (readUpTo 5 c) = readUpTo 6 c"
    using tv(2) tv(3) [symmetric] t by (simp add: prop_cons readUpTo_def)
  ultimately show "trim ?l = ?l \<and> ?l \<noteq> [] \<and> \<not> isBegin ?l \<and> \<not> isEnd ?l
      \<and> parseProperty ?l (readUpTo 5 c) = readUpTo 6 c"
    by (simp add: isBegin_def isEnd_def)
qed

lemma step_status:
  assumes "serialisable c"
  shows "foldl parseLine (inState acc (readUpTo 6 c))
           (if truthy (status c) then [''STATUS:'' @ the (status c)] else [])
         = inState acc (readUpTo 7 c)"
proof (rule opt_step)
  assume "\<not> truthy (status c)"
  then show "readUpTo 6 c = readUpTo 7 c" by (simp add: readUpTo_def)
next
  assume t: "truthy (status c)"
  have u: "status c = Some (the (status c))" using t truthy_the by blast
  have r: "rawOk (the (status c))"
    using assms u by (auto simp: serialisable_def optAll_def split: option.splits)
  let ?l = "''STATUS:'' @ the (status c)"
  have "trim ?l = ?l" using r by (intro line_prefixed) (simp_all add: isSpace_def)
  moreover have "parseProperty ?l (readUpTo 6 c) = readUpTo 7 c"
    using t by (simp add: prop_cons readUpTo_def)
  ultimately show "trim ?l = ?l \<and> ?l \<noteq> [] \<and> \<not> isBegin ?l \<and> \<not> isEnd ?l
      \<and> parseProperty ?l (readUpTo 6 c) = readUpTo 7 c"
    by (simp add: isBegin_def isEnd_def)
qed

lemma truthyNum_Num: "truthyNum v \<Longrightarrow> \<exists>i. v = Some (Num i) \<and> i \<noteq> 0"
  by (auto simp: truthyNum_def split: option.splits jsnum.splits)

lemma step_priority:
  "foldl parseLine (inState acc (readUpTo 7 c))
     (if truthyNum (priority c) then [''PRIORITY:'' @ showNum (the (priority c))] else [])
   = inState acc (readUpTo 8 c)"
proof (rule opt_step)
  assume "\<not> truthyNum (priority c)"
  then show "readUpTo 7 c = readUpTo 8 c" by (simp add: readUpTo_def)
next
  assume t: "truthyNum (priority c)"
  then obtain i where i: "priority c = Some (Num i)" using truthyNum_Num by blast
  let ?l = "''PRIORITY:'' @ showNum (the (priority c))"
  have "trim ?l = ?l" using rawOk_showNum [of i] i by (intro line_prefixed) (simp_all add: isSpace_def)
  moreover have "parseProperty ?l (readUpTo 7 c) = readUpTo 8 c"
    using t i parseInt_showNum [of i] by (simp add: prop_cons readUpTo_def del: showNum.simps)
  ultimately show "trim ?l = ?l \<and> ?l \<noteq> [] \<and> \<not> isBegin ?l \<and> \<not> isEnd ?l
      \<and> parseProperty ?l (readUpTo 7 c) = readUpTo 8 c"
    by (simp add: isBegin_def isEnd_def)
qed

lemma category_lines:
  "(case categories c of
      None \<Rightarrow> []
    | Some cats \<Rightarrow> (if cats \<noteq> [] then [''CATEGORIES:'' @ join '','' (map escapeValue cats)] else []))
   = (if hasCategories c then [''CATEGORIES:'' @ join '','' (map escapeValue (the (categories c)))] else [])"
  by (simp add: hasCategories_def split: option.splits)

lemma step_categories:
  assumes "serialisable c"
  shows "foldl parseLine (inState acc (readUpTo 8 c))
           (if hasCategories c then [''CATEGORIES:'' @ join '','' (map escapeValue (the (categories c)))] else [])
         = inState acc (readUpTo 9 c)"
proof (rule opt_step)
  assume "\<not> hasCategories c"
  then show "readUpTo 8 c = readUpTo 9 c" by (simp add: readUpTo_def)
next
  assume t: "hasCategories c"
  then obtain cats where cats: "categories c = Some cats" "cats \<noteq> []"
    by (auto simp: hasCategories_def split: option.splits)
  have ok: "list_all categoryOk cats"
    using assms cats by (simp add: serialisable_def optAll_def)
  let ?l = "''CATEGORIES:'' @ join '','' (map escapeValue (the (categories c)))"
  have "trim ?l = ?l"
    using rawOk_categories [OF ok] cats by (intro line_prefixed) (simp_all add: isSpace_def)
  moreover have "parseProperty ?l (readUpTo 8 c) = readUpTo 9 c"
    using t cats categories_roundtrip [OF ok cats(2)] by (simp add: prop_cons readUpTo_def)
  ultimately show "trim ?l = ?l \<and> ?l \<noteq> [] \<and> \<not> isBegin ?l \<and> \<not> isEnd ?l
      \<and> parseProperty ?l (readUpTo 8 c) = readUpTo 9 c"
    by (simp add: isBegin_def isEnd_def)
qed

lemma readUpTo_9: "serialisable c \<Longrightarrow> readUpTo 9 c = reparsed c"
  by (auto simp: readUpTo_def reparsed_def hasCategories_def split: option.splits)

lemma read_component:
  assumes s: "serialisable c"
  shows "foldl parseLine (outState acc) (componentLines c) = outState (acc @ [reparsed c])"
proof -
  have b: "isBegin (''BEGIN:'' @ compTypeOf c)" "CHR '':'' \<notin> set (compTypeOf c)" "rawOk (compTypeOf c)"
    using s by (simp_all add: serialisable_def)
  have u: "truthy (uid (readUpTo 9 c))" using s by (simp add: readUpTo_def serialisable_def)
  have 0: "parseLine (outState acc) (''BEGIN:'' @ compTypeOf c) = inState acc (readUpTo 0 c)"
    using parseLine_begin [OF b] by (simp add: readUpTo_0)
  have e: "parseLine (inState acc (readUpTo 9 c)) (''END:'' @ compTypeOf c) = outState (acc @ [reparsed c])"
    using parseLine_end [OF b(1) b(3) u] readUpTo_9 [OF s] by simp
  show ?thesis
    unfolding componentLines_def category_lines foldl_append foldl_Cons foldl_Nil 0
      step_uid [OF s] step_summary [OF s] step_dtstart step_dtend step_description [OF s]
      step_location [OF s] step_status [OF s] step_priority step_categories [OF s] e
    by (rule refl)
qed

subsection \<open>Reading back a whole document\<close>

lemma opt_line: "(b \<Longrightarrow> lineOk l) \<Longrightarrow> list_all lineOk (if b then [l] else [])"
  by simp

lemma componentLines_ok:
  assumes s: "serialisable c"
  shows "list_all lineOk (componentLines c)"
proof -
  have ty: "rawOk (compTypeOf c)" using s by (simp add: serialisable_def)
  have "lineOk (''BEGIN:'' @ compTypeOf c)"
    using ty by (intro line_prefixed) (simp_all add: isSpace_def)
  moreover have "lineOk (''END:'' @ compTypeOf c)"
    using ty by (intro line_prefixed) (simp_all add: isSpace_def)
  moreover have "list_all lineOk (if truthy (uid c) then [''UID:'' @ the (uid c)] else [])"
  proof (rule opt_line)
    assume "truthy (uid c)"
    then have "uid c = Some (the (uid c))" using truthy_the by blast
    then have "rawOk (the (uid c))"
      using s by (auto simp: serialisable_def optAll_def split: option.splits)
    then show "lineOk (''UID:'' @ the (uid c))"
      by (intro line_prefixed) (simp_all add: isSpace_def)
  qed
  moreover have "list_all lineOk
      (if truthy (summary c) then [''SUMMARY:'' @ escapeValue (the (summary c))] else [])"
  proof (rule opt_line)
    assume t: "truthy (summary c)"
    have o: "optAll textOk (summary c)" using s by (simp add: serialisable_def)
    show "lineOk (''SUMMARY:'' @ escapeValue (the (summary c)))"
      using text_value(1) [OF o t] by (intro line_prefixed) (simp_all add: isSpace_def)
  qed
  moreover have "list_all lineOk
      (if truthy (dtstart c) then [''DTSTART:'' @ stripDate (the (dtstart c))] else [])"
    using rawOk_stripDate by (intro opt_line line_prefixed) (simp_all add: isSpace_def)
  moreover have "list_all lineOk
      (if truthy (dtend c) then [''DTEND:'' @ stripDate (the (dtend c))] else [])"
    using rawOk_stripDate by (intro opt_line line_prefixed) (simp_all add: isSpace_def)
  moreover have "list_all lineOk
      (if truthy (description c) then [''DESCRIPTION:'' @ escapeValue (the (description c))] else [])"
  proof (rule opt_line)
    assume t: "truthy (description c)"
    have o: "optAll textOk (description c)" using s by (simp add: serialisable_def)
    show "lineOk (''DESCRIPTION:'' @ escapeValue (the (description c)))"
      using text_value(1) [OF o t] by (intro line_prefixed) (simp_all add: isSpace_def)
  qed
  moreover have "list_all lineOk
      (if truthy (location c) then [''LOCATION:'' @ escapeValue (the (location c))] else [])"
  proof (rule opt_line)
    assume t: "truthy (location c)"
    have o: "optAll textOk (location c)" using s by (simp add: serialisable_def)
    show "lineOk (''LOCATION:'' @ escapeValue (the (location c)))"
      using text_value(1) [OF o t] by (intro line_prefixed) (simp_all add: isSpace_def)
  qed
  moreover have "list_all lineOk (if truthy (status c) then [''STATUS:'' @ the (status c)] else [])"
  proof (rule opt_line)
    assume "truthy (status c)"
    then have "status c = Some (the (status c))" using truthy_the by blast
    then have "rawOk (the (status c))"
      using s by (auto simp: serialisable_def optAll_def split: option.splits)
    then show "lineOk (''STATUS:'' @ the (status c))"
      by (intro line_prefixed) (simp_all add: isSpace_def)
  qed
  moreover have "list_all lineOk
      (if truthyNum (priority c) then [''PRIORITY:'' @ showNum (the (priority c))] else [])"
  proof (rule opt_line)
    assume "truthyNum (priority c)"
    then obtain i where i: "priority c = Some (Num i)" using truthyNum_Num by blast
    show "lineOk (''PRIORITY:'' @ showNum (the (priority c)))"
      using rawOk_showNum [of i] i by (intro line_prefixed) (simp_all add: isSpace_def)
  qed
  moreover have "list_all lineOk
      (if hasCategories c
       then [''CATEGORIES:'' @ join '','' (map escapeValue (the (categories c)))] else [])"
  proof (rule opt_line)
    assume "hasCategories c"
    then obtain cats where cats: "categories c = Some cats" "cats \<noteq> []"
      by (auto simp: hasCategories_def split: option.splits)
    have ok: "list_all categoryOk cats"
      using s cats by (simp add: serialisable_def optAll_def)
    show "lineOk (''CATEGORIES:'' @ join '','' (map escapeValue (the (categories c))))"
      using rawOk_categories [OF ok] cats by (intro line_prefixed) (simp_all add: isSpace_def)
  qed
  ultimately show ?thesis
    unfolding componentLines_def category_lines list_all_append by simp
qed

lemma foldl_lines:
  "foldl (\<lambda>icalLines cmp. icalLines @ componentLines cmp) hdr cs
   = hdr @ concat (map componentLines cs)"
  by (induction cs arbitrary: hdr) simp_all

lemma read_components:
  "list_all serialisable cs \<Longrightarrow>
   foldl parseLine (outState acc) (concat (map componentLines cs)) = outState (acc @ map reparsed cs)"
  by (induction cs arbitrary: acc) (simp_all add: read_component)

lemma header_lines:
  "trim ''BEGIN:VCALENDAR'' = ''BEGIN:VCALENDAR''"
  "trim ''VERSION:2.0'' = ''VERSION:2.0''"
  "trim ''PRODID:-//MCP CalDAV Server//EN'' = ''PRODID:-//MCP CalDAV Server//EN''"
  "trim ''END:VCALENDAR'' = ''END:VCALENDAR''"
  "\<not> isBegin ''BEGIN:VCALENDAR''" "\<not> isEnd ''BEGIN:VCALENDAR''"
  "\<not> isBegin ''VERSION:2.0''" "\<not> isEnd ''VERSION:2.0''"
  "\<not> isBegin ''PRODID:-//MCP CalDAV Server//EN''" "\<not> isEnd ''PRODID:-//MCP CalDAV Server//EN''"
  "\<not> isBegin ''END:VCALENDAR''" "\<not> isEnd ''END:VCALENDAR''"
  "lineOk ''BEGIN:VCALENDAR''" "lineOk ''VERSION:2.0''"
  "lineOk ''PRODID:-//MCP CalDAV Server//EN''" "lineOk ''END:VCALENDAR''"
  by code_simp+

lemma read_header:
  "parseLine (outState acc) ''BEGIN:VCALENDAR'' = outState acc"
  "parseLine (outState acc) ''VERSION:2.0'' = outState acc"
  "parseLine (outState acc) ''PRODID:-//MCP CalDAV Server//EN'' = outState acc"
  "parseLine (outState acc) ''END:VCALENDAR'' = outState acc"
  by (rule parseLine_outside; simp only: header_lines; simp add: header_lines)+

lemma read_document:
  assumes "list_all serialisable cs"
  shows "parseICalendarData (componentsToICalendar cs) = map reparsed cs"
proof -
  let ?ls = "[''BEGIN:VCALENDAR'', ''VERSION:2.0'', ''PRODID:-//MCP CalDAV Server//EN'']
             @ concat (map componentLines cs) @ [''END:VCALENDAR'']"
  have "list_all lineOk (concat (map componentLines cs))"
    using assms by (induction cs) (simp_all add: componentLines_ok)
  then have ok: "list_all lineOk ?ls"
    by (simp add: header_lines)
  have doc: "componentsToICalendar cs = join [CR, LF] ?ls"
    by (simp add: componentsToICalendar_def foldl_lines)
  have "splitLines (unfoldLines (componentsToICalendar cs)) = ?ls"
    unfolding doc using ok by (intro lines_of_join) simp_all
  moreover have "foldl parseLine (outState []) ?ls = outState (map reparsed cs)"
    unfolding foldl_append foldl_Cons foldl_Nil read_header read_components [OF assms]
    by simp
  ultimately show ?thesis
    by (simp add: parseICalendarData_def initialState_def outState_def)
qed

subsection \<open>What every parsed component satisfies\<close>

lemma splitLines_nonempty: "splitLines s \<noteq> []"
  by (induction s rule: splitLines.induct) (auto simp: consHd_def split: list.splits)

lemma splitLines_lines: "l \<in> set (splitLines s) \<Longrightarrow> LF \<notin> set l"
proof (induction s arbitrary: l rule: splitLines.induct)
  case 1
  then show ?case by simp
next
  case (2 x xs)
  then show ?case
    by (auto simp: consHd_def split: if_splits list.splits)
qed

lemma set_trim: "set (trim l) \<subseteq> set l"
proof -
  have "set (dropWhile isSpace (rev (dropWhile isSpace l))) \<subseteq> set (rev (dropWhile isSpace l))"
    by (rule set_dropWhileD [THEN subsetI])
  also have "\<dots> \<subseteq> set l" using set_dropWhileD [of _ isSpace l] by auto
  finally show ?thesis by (simp add: trim_def)
qed

lemma trim_last: "trim l \<noteq> [] \<Longrightarrow> \<not> isSpace (last (trim l))"
  by (simp add: trim_def last_rev hd_dropWhile)

lemma rawOk_drop: "LF \<notin> set l \<Longrightarrow> l \<noteq> [] \<Longrightarrow> \<not> isSpace (last l) \<Longrightarrow> rawOk (drop n l)"
  by (auto simp: rawOk_def dest: in_set_dropD)

lemma of_char_upper:
  "(of_char (upperChar c) :: nat) =
     (if 97 \<le> (of_char c :: nat) \<and> (of_char c :: nat) \<le> 122 then of_char c - 32 else of_char c)"
proof -
  have "(of_char c :: nat) < 256" by simp
  then have "(of_char c :: nat) - 32 < 256" by (rule less_imp_diff_less)
  then have "((of_char c :: nat) - 32) mod 256 = of_char c - 32" by (rule mod_less)
  then show ?thesis by (simp add: upperChar_def Let_def)
qed

lemma isSpace_code:
  "isSpace c \<longleftrightarrow> (of_char c :: nat) \<in> {9, 10, 11, 12, 13, 32}"
proof -
  have e: "c = d \<longleftrightarrow> (of_char c :: nat) = of_char d" for d by auto
  show ?thesis unfolding isSpace_def by (subst (1 2 3 4 5 6) e) simp
qed

lemma isSpace_upper: "isSpace (upperChar c) = isSpace c"
  by (auto simp: isSpace_code of_char_upper)

lemma LF_upper: "upperChar c = LF \<longleftrightarrow> c = LF"
proof -
  have e: "x = d \<longleftrightarrow> (of_char x :: nat) = of_char d" for x d :: char by auto
  show ?thesis by (subst (1 2) e) (auto simp: of_char_upper)
qed

lemma upper_idem: "upperChar (upperChar c) = upperChar c"
proof -
  have "(of_char (upperChar (upperChar c)) :: nat) = of_char (upperChar c)"
    by (auto simp: of_char_upper)
  then show ?thesis by simp
qed

lemma LF_upper_sym: "LF = upperChar c \<longleftrightarrow> c = LF"
  using LF_upper [of c] by auto

lemma rawOk_upper: "rawOk v \<Longrightarrow> rawOk (toUpperCase v)"
proof -
  assume r: "rawOk v"
  have "LF \<notin> set (map upperChar v)"
  proof
    assume "LF \<in> set (map upperChar v)"
    then obtain x where "x \<in> set v" "LF = upperChar x" by auto
    then show False using r LF_upper_sym [of x] by (simp add: rawOk_def)
  qed
  moreover have "v = [] \<or> \<not> isSpace (last (map upperChar v))"
    using r by (cases "v = []") (simp_all add: rawOk_def last_map isSpace_upper)
  ultimately show ?thesis by (simp add: rawOk_def toUpperCase_def)
qed

lemma toUpperCase_idem: "toUpperCase (toUpperCase v) = toUpperCase v"
  by (simp add: toUpperCase_def upper_idem)

lemma splitUnescapedComma_nonempty: "splitUnescapedComma p s \<noteq> []"
  by (induction s arbitrary: p) (auto simp: consHd_def split: list.splits)

lemma splitStr_nonempty: "splitStr sep s \<noteq> []"
  by (induction sep s rule: splitStr.induct) (auto simp: consHd_def split: list.splits)

lemma hd_splitStr: "hd (splitStr [c] s) = takeWhile (\<lambda>x. x \<noteq> c) s"
  using splitStr_nonempty [of "[c]"]
  by (induction s) (auto simp: consHd_def split: list.splits)

lemma prefix_takeWhile: "prefix p r \<Longrightarrow> \<forall>x \<in> set p. P x \<Longrightarrow> prefix p (takeWhile P r)"
  by (auto simp: prefix_def takeWhile_append2)


lemma nthOpt_1: "xs \<noteq> [] \<Longrightarrow> nthOpt (a # xs) (Suc 0) = Some (hd xs)"
  by (cases xs) (simp_all add: nthOpt_def)

lemma begin_type:
  assumes b: "isBegin l"
  shows "\<exists>t. nthOpt (splitStr '':'' l) 1 = Some t \<and> isBegin (''BEGIN:'' @ t)
           \<and> CHR '':'' \<notin> set t \<and> set t \<subseteq> set l"
proof -
  obtain r where l: "l = ''BEGIN'' @ CHR '':'' # r"
    and r: "prefix ''VEVENT'' r \<or> prefix ''VTODO'' r \<or> prefix ''VJOURNAL'' r"
    using b by (auto simp: isBegin_def prefix_def)
  let ?t = "takeWhile (\<lambda>x. x \<noteq> CHR '':'') r"
  have "splitStr '':'' l = ''BEGIN'' # splitStr '':'' r"
    unfolding l by (rule splitStr_char) simp
  then have 1: "nthOpt (splitStr '':'' l) 1 = Some ?t"
    by (simp add: nthOpt_1 splitStr_nonempty hd_splitStr)
  have 2: "prefix ''VEVENT'' ?t \<or> prefix ''VTODO'' ?t \<or> prefix ''VJOURNAL'' ?t"
    using r by (auto intro!: prefix_takeWhile)
  have 3: "CHR '':'' \<notin> set ?t" by (auto dest: set_takeWhileD)
  have 4: "set ?t \<subseteq> set l" unfolding l by (auto dest: set_takeWhileD)
  from 2 have "isBegin (''BEGIN:'' @ ?t)" by (simp add: isBegin_def)
  with 1 3 4 show ?thesis by blast
qed

lemma truthy_begin: "isBegin (''BEGIN:'' @ t) \<Longrightarrow> truthy (Some t)"
  using isBegin_nonempty [of t] by (simp add: truthy_def)

lemma parsedOk_begin:
  assumes "isBegin l" "LF \<notin> set l"
  shows "parsedOk (emptyComponent\<lparr>componentType := nthOpt (splitStr '':'' l) 1\<rparr>)"
proof -
  obtain t where t: "nthOpt (splitStr '':'' l) 1 = Some t" "isBegin (''BEGIN:'' @ t)"
      "CHR '':'' \<notin> set t" "set t \<subseteq> set l"
    using begin_type [OF assms(1)] by blast
  have "LF \<notin> set t" using t(4) assms(2) by auto
  then show ?thesis
    using t truthy_begin [OF t(2)]
    by (simp add: parsedOk_def emptyComponent_def optAll_def typeOk_def)
qed

lemma parsedOk_setOther: "parsedOk c \<Longrightarrow> parsedOk (setOther k v c)"
  by (simp add: parsedOk_def setOther_def)

lemma parsedOk_property:
  assumes ok: "parsedOk c" and lf: "LF \<notin> set l" and ne: "l \<noteq> []" and sp: "\<not> isSpace (last l)"
  shows "parsedOk (parseProperty l c)"
proof (cases "indexOf l (CHR '':'')")
  case None
  then show ?thesis using ok by (simp add: parseProperty_def)
next
  case (Some i)
  have v: "rawOk (drop (i + 1) l)" using lf ne sp by (rule rawOk_drop)
  have u: "rawOk (toUpperCase (drop (i + 1) l))" using v by (rule rawOk_upper)
  show ?thesis
    using ok v u
    by (simp add: parseProperty_def Some Let_def parsedOk_def optAll_def toUpperCase_idem
        splitUnescapedComma_nonempty parsedOk_setOther [unfolded parsedOk_def optAll_def])
qed

lemma parseLine_ok:
  assumes st: "stateOk st" and lf: "LF \<notin> set l"
  shows "stateOk (parseLine st l)"
proof -
  have t: "LF \<notin> set (trim l)" using lf set_trim by blast
  show ?thesis
  proof (cases "trim l = []")
    case True
    then show ?thesis using st by (simp add: parseLine_def)
  next
    case ne: False
    have sp: "\<not> isSpace (last (trim l))" using ne by (rule trim_last)
    show ?thesis
    proof (cases "isBegin (trim l)")
      case True
      then show ?thesis
        using st ne parsedOk_begin [OF True t]
        by (simp add: parseLine_def stateOk_def optAll_def)
    next
      case nb: False
      show ?thesis
      proof (cases "isEnd (trim l)")
        case True
        then show ?thesis
          using st ne nb
          by (auto simp: parseLine_def stateOk_def optAll_def split: option.splits)
      next
        case False
        then show ?thesis
          using st ne nb parsedOk_property [OF _ t ne sp]
          by (auto simp: parseLine_def stateOk_def optAll_def split: option.splits)
      qed
    qed
  qed
qed

lemma foldl_parseLine_ok:
  "stateOk st \<Longrightarrow> \<forall>l \<in> set ls. LF \<notin> set l \<Longrightarrow> stateOk (foldl parseLine st ls)"
  by (induction ls arbitrary: st) (simp_all add: parseLine_ok)

lemma parsed_ok: "list_all (\<lambda>c. truthy (uid c) \<and> parsedOk c) (parseICalendarData doc)"
proof -
  have "stateOk initialState" by (simp add: stateOk_def initialState_def optAll_def)
  then have "stateOk (foldl parseLine initialState (splitLines (unfoldLines doc)))"
    by (rule foldl_parseLine_ok) (simp add: splitLines_lines)
  then show ?thesis by (simp add: parseICalendarData_def stateOk_def)
qed

section \<open>Parsed components carry an identifier\<close>

lemma truthy_hasUid: "truthy (uid c) \<Longrightarrow> hasUid c"
  by (auto simp: truthy_def hasUid_def split: option.splits)

lemma parseLine_components:
  "components (parseLine st l) = components st \<or>
   (\<exists>c. currentComponent st = Some c \<and> truthy (uid c) \<and> components (parseLine st l) = components st @ [c])"
  by (simp add: parseLine_def Let_def split: option.splits)

lemma parseLine_hasUid:
  "list_all hasUid (components st) \<Longrightarrow> list_all hasUid (components (parseLine st l))"
  using parseLine_components [of st l] by (auto simp: truthy_hasUid)

lemma foldl_parseLine_hasUid:
  "list_all hasUid (components st) \<Longrightarrow> list_all hasUid (components (foldl parseLine st ls))"
  by (induction ls arbitrary: st) (simp_all add: parseLine_hasUid)

lemma parseLine_END_drops:
  "isEnd (trim l) \<Longrightarrow> currentComponent st = Some c \<Longrightarrow> \<not> truthy (uid c)
   \<Longrightarrow> components (parseLine st l) = components st"
  by (auto simp: parseLine_def Let_def isEnd_def isBegin_def)

text \<open>
  Claim C9. Every component that \<open>parseICalendarData\<close> returns has a non-empty
  \<open>uid\<close>, for every input document; and at an end marker, a component under
  construction whose \<open>uid\<close> is absent or empty is not appended to the result.
\<close>

theorem parse_uid_nonempty:
  "(\<forall>c \<in> set (parseICalendarData icalData). \<exists>u. uid c = Some u \<and> u \<noteq> []) \<and>
   (isEnd (trim l) \<and> currentComponent st = Some cur \<and> (uid cur = None \<or> uid cur = Some [])
      \<longrightarrow> components (parseLine st l) = components st)"
proof
  have "list_all hasUid (components (foldl parseLine initialState (splitLines (unfoldLines icalData))))"
    by (rule foldl_parseLine_hasUid) (simp add: initialState_def)
  then show "\<forall>c \<in> set (parseICalendarData icalData). \<exists>u. uid c = Some u \<and> u \<noteq> []"
    by (simp add: parseICalendarData_def list_all_iff hasUid_def)
next
  show "isEnd (trim l) \<and> currentComponent st = Some cur \<and> (uid cur = None \<or> uid cur = Some [])
      \<longrightarrow> components (parseLine st l) = components st"
    by (auto simp: truthy_def intro!: parseLine_END_drops)
qed

theorem parse_uid_nonempty_witness:
  "map uid (parseICalendarData uidExampleDoc) = [Some ''e1''] \<and>
   list_all hasUid (parseICalendarData uidExampleDoc) \<and>
   components (parseLine \<lparr>components = [], currentComponent = Some emptyComponent, inComponent = True\<rparr>
      ''END:VTODO'') = []"
proof -
  have 1: "map uid (parseICalendarData uidExampleDoc) = [Some ''e1'']"
    by code_simp
  have 2: "isEnd (trim ''END:VTODO'')" by code_simp
  show ?thesis
    using 1 2 parse_uid_nonempty [of uidExampleDoc "''END:VTODO''"
      "\<lparr>components = [], currentComponent = Some emptyComponent, inComponent = True\<rparr>" emptyComponent]
    by (simp add: emptyComponent_def list_all_iff hasUid_def)
qed

section \<open>The time-range filter\<close>

text \<open>
  The claim C5 as it is written fails at the boundary: the all-day component of
  2024-01-15 has the interval from that midnight to the next one, and the filter
  keeps it for a window that starts at the next midnight, which the interval
  without its end does not reach.
\<close>

theorem all_day_boundary_counterexample:
  "filterByTimeRange isoDate [allDayComponent] (Some ''2024-01-16T00:00:00Z'') None = [allDayComponent] \<and>
   isAllDay (the (dtstart allDayComponent)) \<and>
   dtend allDayComponent = None \<and>
   parseICalDate isoDate (the (dtstart allDayComponent)) = Some 1705276800000 \<and>
   compEndOf isoDate allDayComponent = Some (1705276800000 + 24 * 60 * 60 * 1000) \<and>
   isoDate ''2024-01-16T00:00:00Z'' = Some 1705363200000 \<and>
   \<not> overlapsHalfOpen 1705276800000 (1705276800000 + 24 * 60 * 60 * 1000) (Some 1705363200000) None"
  by code_simp

lemma inTimeRange_overlaps:
  "inTimeRange parseDate fs fe =
     (\<lambda>c. truthy (dtstart c) \<and>
      overlapsClosed (parseICalDate parseDate (the (dtstart c))) (compEndOf parseDate c) fs fe)"
  by (rule ext) (auto simp: inTimeRange_def overlapsClosed_def present_def split: option.splits)

lemma overlapsClosed_valid:
  "overlapsClosed (Some s) (Some e) (Some (Some fs)) (Some (Some fe)) = (fs \<le> e \<and> s \<le> fe)"
  by (auto simp: overlapsClosed_def dateLess_def)

text \<open>
  Claim C5, amended. With at least one bound, \<open>filterByTimeRange\<close> keeps the
  components that have a start and whose closed interval from the start to the
  computed end overlaps the window: a bound that is absent constrains nothing,
  nor does a date that is invalid. For valid dates the interval overlaps when the
  start bound is at most the computed end and the start is at most the end bound.
  The computed end is the end field if there is one, else the start plus 24 hours
  when the start has exactly eight digits, else the start.
\<close>

theorem time_range_filter:
  "(truthy start \<or> truthy end \<longrightarrow>
      filterByTimeRange parseDate comps start end =
        filter (\<lambda>c. truthy (dtstart c) \<and>
                     overlapsClosed (parseICalDate parseDate (the (dtstart c))) (compEndOf parseDate c)
                       (boundOf parseDate start) (boundOf parseDate end)) comps) \<and>
   overlapsClosed (Some s) (Some e) (Some (Some fs)) (Some (Some fe)) = (fs \<le> e \<and> s \<le> fe) \<and>
   overlapsClosed (Some s) (Some e) (Some (Some fs)) None = (fs \<le> e) \<and>
   overlapsClosed (Some s) (Some e) None (Some (Some fe)) = (s \<le> fe) \<and>
   (truthy (dtend c) \<longrightarrow> compEndOf parseDate c = parseICalDate parseDate (the (dtend c))) \<and>
   (\<not> truthy (dtend c) \<and> isAllDay (the (dtstart c)) \<longrightarrow>
      compEndOf parseDate c = addDay (parseICalDate parseDate (the (dtstart c)))) \<and>
   (\<not> truthy (dtend c) \<and> \<not> isAllDay (the (dtstart c)) \<longrightarrow>
      compEndOf parseDate c = parseICalDate parseDate (the (dtstart c))) \<and>
   isAllDay d = (length (filter isDigit d) = 8) \<and>
   (x + 86400000 \<le> 8640000000000000 \<longrightarrow> addDay (Some x) = Some (x + 24 * 60 * 60 * 1000))"
proof -
  have "truthy start \<or> truthy end \<longrightarrow>
      filterByTimeRange parseDate comps start end =
        filter (\<lambda>c. truthy (dtstart c) \<and>
                     overlapsClosed (parseICalDate parseDate (the (dtstart c))) (compEndOf parseDate c)
                       (boundOf parseDate start) (boundOf parseDate end)) comps"
    by (auto simp: filterByTimeRange_def Let_def boundOf_def inTimeRange_overlaps)
  moreover have "overlapsClosed (Some s) (Some e) (Some (Some fs)) None = (fs \<le> e)"
    "overlapsClosed (Some s) (Some e) None (Some (Some fe)) = (s \<le> fe)"
    by (auto simp: overlapsClosed_def dateLess_def)
  ultimately show ?thesis
    by (simp add: overlapsClosed_valid compEndOf_def isAllDay_def addDay_def)
qed

theorem time_range_filter_witness:
  "filterByTimeRange isoDate [allDayComponent, timedComponent]
      (Some ''2024-01-16T00:00:00Z'') (Some ''2024-01-19T00:00:00Z'') = [allDayComponent] \<and>
   filterByTimeRange isoDate [allDayComponent, timedComponent] (Some ''2024-01-16T00:00:01Z'') None
     = [timedComponent] \<and>
   compEndOf isoDate allDayComponent = Some (1705276800000 + 24 * 60 * 60 * 1000) \<and>
   compEndOf isoDate timedComponent = isoDate ''2024-01-20T15:00:00Z''"
proof -
  let ?cs = "[allDayComponent, timedComponent]"
  have t: "truthy (Some ''2024-01-16T00:00:00Z'') \<or> truthy (Some ''2024-01-19T00:00:00Z'')"
    "truthy (Some ''2024-01-16T00:00:01Z'') \<or> truthy None"
    by (simp_all add: truthy_def)
  have f1: "filter (\<lambda>c. truthy (dtstart c) \<and>
                     overlapsClosed (parseICalDate isoDate (the (dtstart c))) (compEndOf isoDate c)
                       (boundOf isoDate (Some ''2024-01-16T00:00:00Z''))
                       (boundOf isoDate (Some ''2024-01-19T00:00:00Z''))) ?cs = [allDayComponent]"
    by code_simp
  have f2: "filter (\<lambda>c. truthy (dtstart c) \<and>
                     overlapsClosed (parseICalDate isoDate (the (dtstart c))) (compEndOf isoDate c)
                       (boundOf isoDate (Some ''2024-01-16T00:00:01Z''))
                       (boundOf isoDate None)) ?cs = [timedComponent]"
    by code_simp
  have a: "\<not> truthy (dtend allDayComponent) \<and> isAllDay (the (dtstart allDayComponent))"
    by code_simp
  have b: "truthy (dtend timedComponent)" by code_simp
  have p: "parseICalDate isoDate (the (dtstart allDayComponent)) = Some 1705276800000"
    "parseICalDate isoDate (the (dtend timedComponent)) = isoDate ''2024-01-20T15:00:00Z''"
    by code_simp+
  have r: "(1705276800000::int) + 86400000 \<le> 8640000000000000" by simp
  from time_range_filter [of "Some ''2024-01-16T00:00:00Z''" "Some ''2024-01-19T00:00:00Z''" isoDate ?cs
      _ _ _ _ allDayComponent _ 1705276800000] t(1) f1 a p(1) r
  have 1: "filterByTimeRange isoDate ?cs (Some ''2024-01-16T00:00:00Z'') (Some ''2024-01-19T00:00:00Z'')
      = [allDayComponent]"
    and 3: "compEndOf isoDate allDayComponent = Some (1705276800000 + 24 * 60 * 60 * 1000)"
    by simp_all
  from time_range_filter [of "Some ''2024-01-16T00:00:01Z''" None isoDate ?cs
      _ _ _ _ timedComponent] t(2) f2 b p(2)
  have 2: "filterByTimeRange isoDate ?cs (Some ''2024-01-16T00:00:01Z'') None = [timedComponent]"
    and 4: "compEndOf isoDate timedComponent = isoDate ''2024-01-20T15:00:00Z''"
    by simp_all
  from 1 2 3 4 show ?thesis by simp
qed

section \<open>The order of the templates\<close>







lemma cmp_q_m: "compareTemplates componentsQuery metadataListCals = 1" by code_simp
lemma cmp_u_m: "compareTemplates componentByUid metadataListCals = 1" by code_simp
lemma cmp_u_q: "compareTemplates componentByUid componentsQuery = 1" by code_simp
lemma cmp_c_m: "compareTemplates componentsByCat metadataListCals = - 1" by code_simp
lemma cmp_r_c: "compareTemplates componentsRange componentsByCat = 1" by code_simp
lemma cmp_r_m: "compareTemplates componentsRange metadataListCals = 1" by code_simp
lemma cmp_r_q: "compareTemplates componentsRange componentsQuery = - 1" by code_simp

lemma sortedTemplates_eq:
  "sortedTemplates =
     [componentsByCat, metadataListCals, componentsRange, componentsQuery, componentByUid]"
  by (simp add: sortedTemplates_def getAllTemplates_def CALDAV_TEMPLATES_def sortBy_def
      cmp_q_m cmp_u_m cmp_u_q cmp_c_m cmp_r_c cmp_r_m cmp_r_q)

section \<open>The failures of the matcher\<close>

lemma setDecoded_err: "setDecoded k v vs = Inl e \<Longrightarrow> e = URIMalformed"
  by (auto simp: setDecoded_def split: option.splits)

lemma setAllDecoded_err: "setAllDecoded gs vs = Inl e \<Longrightarrow> e = URIMalformed"
  by (induction gs vs rule: setAllDecoded.induct) (auto split: sum.splits dest: setDecoded_err)

lemma map_sum_Inl: "map_sum id f x = Inl e \<Longrightarrow> x = Inl e"
  by (cases x) auto

lemma matchPath_err: "matchPath t tp pp = Inl e \<Longrightarrow> e = URIMalformed"
  by (auto simp: matchPath_def Let_def split: if_splits sum.splits option.splits
      dest!: map_sum_Inl dest: setDecoded_err setAllDecoded_err)

lemma tryParse_err: "tryParseWithTemplate u t = Inl e \<Longrightarrow> e = URIMalformed"
  by (auto simp: tryParseWithTemplate_def Let_def split: sum.splits option.splits dest: matchPath_err)

lemma tryTemplates_not_malformed: "tryTemplates uri wp ts \<noteq> Inl MalformedInput"
  by (induction ts) (auto simp: Let_def split: sum.splits option.splits dest: tryParse_err)

lemma tryTemplates_NoMatch:
  "tryTemplates uri wp ts = Inl (NoMatch uri) \<longleftrightarrow>
   (\<forall>t \<in> set ts. tryParseWithTemplate wp t = Inr None)"
  by (induction ts) (auto simp: Let_def split: sum.splits option.splits dest: tryParse_err)

lemma tryTemplates_skip:
  "\<forall>s \<in> set pre. tryParseWithTemplate wp s = Inr None \<Longrightarrow>
   tryTemplates uri wp (pre @ ts) = tryTemplates uri wp ts"
  by (induction pre) auto

lemma tryTemplates_first_invalid:
  assumes "\<forall>s \<in> set pre. tryParseWithTemplate wp s = Inr None"
    and "tryParseWithTemplate wp t = Inr (Some vs)"
    and "\<not> isValid (validateTemplateVariables (t_name t) vs)"
  shows "tryTemplates uri wp (pre @ t # post) =
           Inl (ValidationError (errors (validateTemplateVariables (t_name t) vs)))"
  using assms by (simp add: tryTemplates_skip Let_def)

subsection \<open>The shape of an identifier and the result of a template\<close>

lemma setAllDecoded_ok:
  "(\<exists>vs'. setAllDecoded gs vs = Inr vs') \<longleftrightarrow> list_all (\<lambda>g. decodeURIComponent (snd g) \<noteq> None) gs"
  by (induction gs vs rule: setAllDecoded.induct)
    (auto simp: setDecoded_def split: option.splits sum.splits)

lemma setAllDecoded_cases:
  "setAllDecoded gs vs = Inl URIMalformed \<and> \<not> list_all (\<lambda>g. decodeURIComponent (snd g) \<noteq> None) gs
   \<or> (\<exists>vs'. setAllDecoded gs vs = Inr vs') \<and> list_all (\<lambda>g. decodeURIComponent (snd g) \<noteq> None) gs"
proof (cases "setAllDecoded gs vs")
  case (Inl e)
  then have "e = URIMalformed" by (rule setAllDecoded_err)
  then show ?thesis using Inl setAllDecoded_ok [of gs vs] by auto
next
  case (Inr r)
  then show ?thesis using setAllDecoded_ok [of gs vs] by auto
qed

lemma matchPath_groups:
  "matchPath t (templatePathOf t) pp =
     (case pathGroups t pp of
        None \<Rightarrow> Inr None
      | Some gs \<Rightarrow> map_sum id Some (setAllDecoded gs []))"
  by (auto simp: matchPath_def pathGroups_def Let_def split: option.splits sum.splits)

lemma matchQuery_None: "matchQuery tq qp vs = None \<longleftrightarrow> truthy tq \<noteq> truthy qp"
  by (auto simp: matchQuery_def)

lemma tryParse_groups:
  "tryParseWithTemplate wp t =
     (case pathGroups t (hd (splitStr ''?'' wp)) of
        None \<Rightarrow> Inr None
      | Some gs \<Rightarrow>
          (case setAllDecoded gs [] of
             Inl e \<Rightarrow> Inl e
           | Inr vs \<Rightarrow> Inr (matchQuery (templateQueryOf t) (nthOpt (splitStr ''?'' wp) 1) vs)))"
  unfolding tryParseWithTemplate_def Let_def
    matchPath_groups [unfolded templatePathOf_def] templateQueryOf_def
  by (auto simp: templatePathOf_def split: option.splits sum.splits)

lemma tryParse_cases:
  "pathGroups t (hd (splitStr ''?'' wp)) = None \<and> tryParseWithTemplate wp t = Inr None
   \<or> (\<exists>gs. pathGroups t (hd (splitStr ''?'' wp)) = Some gs
        \<and> \<not> list_all (\<lambda>g. decodeURIComponent (snd g) \<noteq> None) gs
        \<and> tryParseWithTemplate wp t = Inl URIMalformed)
   \<or> (\<exists>gs vs. pathGroups t (hd (splitStr ''?'' wp)) = Some gs
        \<and> list_all (\<lambda>g. decodeURIComponent (snd g) \<noteq> None) gs
        \<and> tryParseWithTemplate wp t
            = Inr (matchQuery (templateQueryOf t) (nthOpt (splitStr ''?'' wp) 1) vs))"
proof (cases "pathGroups t (hd (splitStr ''?'' wp))")
  case None
  then show ?thesis by (simp add: tryParse_groups)
next
  case (Some gs)
  from setAllDecoded_cases [of gs "[]"] show ?thesis
  proof
    assume "setAllDecoded gs [] = Inl URIMalformed
      \<and> \<not> list_all (\<lambda>g. decodeURIComponent (snd g) \<noteq> None) gs"
    then show ?thesis using Some by (simp add: tryParse_groups)
  next
    assume "(\<exists>vs'. setAllDecoded gs [] = Inr vs')
      \<and> list_all (\<lambda>g. decodeURIComponent (snd g) \<noteq> None) gs"
    then obtain vs where "setAllDecoded gs [] = Inr vs"
        "list_all (\<lambda>g. decodeURIComponent (snd g) \<noteq> None) gs" by blast
    then have "pathGroups t (hd (splitStr ''?'' wp)) = Some gs
        \<and> list_all (\<lambda>g. decodeURIComponent (snd g) \<noteq> None) gs
        \<and> tryParseWithTemplate wp t
            = Inr (matchQuery (templateQueryOf t) (nthOpt (splitStr ''?'' wp) 1) vs)"
      using Some by (simp add: tryParse_groups)
    then show ?thesis by blast
  qed
qed

lemma tryParse_None: "tryParseWithTemplate wp t = Inr None \<longleftrightarrow> \<not> shapeMatches t wp \<and> decodes t wp"
  using tryParse_cases [of t wp]
  by (elim disjE exE conjE) (simp_all add: shapeMatches_def decodes_def matchQuery_None)

lemma tryParse_Inl: "tryParseWithTemplate wp t = Inl e \<longleftrightarrow> e = URIMalformed \<and> \<not> decodes t wp"
  using tryParse_cases [of t wp]
  by (elim disjE exE conjE) (auto simp: decodes_def)

lemma tryParse_Some:
  "tryParseWithTemplate wp t = Inr (Some vs) \<Longrightarrow> shapeMatches t wp \<and> decodes t wp"
  using tryParse_None [of wp t] tryParse_Inl [of wp t URIMalformed] by auto

lemma tryTemplates_no_shape:
  "\<forall>t \<in> set ts. \<not> shapeMatches t wp \<Longrightarrow>
   tryTemplates uri wp ts
     = (if \<forall>t \<in> set ts. decodes t wp then Inl (NoMatch uri) else Inl URIMalformed)"
proof (induction ts)
  case Nil
  then show ?case by simp
next
  case (Cons t ts)
  show ?case
  proof (cases "decodes t wp")
    case True
    then have "tryParseWithTemplate wp t = Inr None" using Cons.prems by (simp add: tryParse_None)
    then show ?thesis using Cons True by simp
  next
    case False
    then have "tryParseWithTemplate wp t = Inl URIMalformed" by (simp add: tryParse_Inl)
    then show ?thesis using False by simp
  qed
qed

lemma tryTemplates_undecodable:
  "\<forall>s \<in> set pre. \<not> shapeMatches s wp \<Longrightarrow> \<not> decodes t wp \<Longrightarrow>
   tryTemplates uri wp (pre @ t # post) = Inl URIMalformed"
proof (induction pre)
  case Nil
  then have "tryParseWithTemplate wp t = Inl URIMalformed" by (simp add: tryParse_Inl)
  then show ?case by simp
next
  case (Cons s pre)
  show ?case
  proof (cases "decodes s wp")
    case True
    then have "tryParseWithTemplate wp s = Inr None" using Cons.prems by (simp add: tryParse_None)
    then show ?thesis using Cons by simp
  next
    case False
    then have "tryParseWithTemplate wp s = Inl URIMalformed" by (simp add: tryParse_Inl)
    then show ?thesis by simp
  qed
qed

subsection \<open>What the generic pattern captures\<close>

lemma firstSome_Some: "firstSome f xs = Some r \<Longrightarrow> \<exists>x \<in> set xs. f x = Some r"
  by (induction xs) (auto split: option.splits)

lemma match_lit:
  "matchToks (Lit c # ts) s = Some gs \<Longrightarrow> \<exists>r. s = c # r \<and> matchToks ts r = Some gs"
  by (cases s) (auto split: if_splits)

lemma take_takeWhile_set:
  "n \<le> length (takeWhile P s) \<Longrightarrow> x \<in> set (take n s) \<Longrightarrow> P x"
proof -
  assume n: "n \<le> length (takeWhile P s)" and x: "x \<in> set (take n s)"
  have "take n (takeWhile P s @ dropWhile P s) = take n (takeWhile P s)"
    using n by (simp del: takeWhile_dropWhile_id)
  then have "take n s = take n (takeWhile P s)" by simp
  then have "x \<in> set (takeWhile P s)" using x by (auto dest: in_set_takeD)
  then show "P x" by (rule set_takeWhileD [THEN conjunct2])
qed

lemma match_var:
  assumes m: "matchToks (Var v # ts) s = Some gs" and v: "v \<noteq> ''principal''"
  shows "\<exists>a r gs'. s = a @ r \<and> CHR ''/'' \<notin> set a \<and> gs = (v, a) # gs' \<and> matchToks ts r = Some gs'"
proof -
  let ?k = "length (takeWhile (\<lambda>x. x \<noteq> CHR ''/'' \<and> x \<noteq> CHR ''?'') s)"
  from m v have "firstSome (\<lambda>n. map_option ((#) (v, take n s)) (matchToks ts (drop n s)))
      (rev [1..<Suc ?k]) = Some gs"
    by (simp add: Let_def)
  then obtain n where n: "n \<in> set (rev [1..<Suc ?k])"
      and r: "map_option ((#) (v, take n s)) (matchToks ts (drop n s)) = Some gs"
    using firstSome_Some by fast
  from r obtain gs' where gs: "matchToks ts (drop n s) = Some gs'" "gs = (v, take n s) # gs'"
    by auto
  have "n \<le> ?k" using n by auto
  then have "CHR ''/'' \<notin> set (take n s)"
    using take_takeWhile_set [of n "\<lambda>x. x \<noteq> CHR ''/'' \<and> x \<noteq> CHR ''?''" s] by blast
  moreover have "s = take n s @ drop n s" by simp
  ultimately show ?thesis using gs by blast
qed

lemma match_principal:
  assumes m: "matchToks (Var ''principal'' # ts) s = Some gs"
  shows "\<exists>a r gs'. s = a @ r \<and> gs = (''principal'', a) # gs' \<and> matchToks ts r = Some gs'"
proof -
  let ?k = "length (takeWhile (\<lambda>x. \<not> isLineTerminator x) s)"
  from m have "firstSome (\<lambda>n. map_option ((#) (''principal'', take n s)) (matchToks ts (drop n s)))
      [1..<Suc ?k] = Some gs"
    by (simp add: Let_def)
  then obtain n where
      r: "map_option ((#) (''principal'', take n s)) (matchToks ts (drop n s)) = Some gs"
    using firstSome_Some by fast
  from r obtain gs' where gs: "matchToks ts (drop n s) = Some gs'" "gs = (''principal'', take n s) # gs'"
    by auto
  moreover have "s = take n s @ drop n s" by simp
  ultimately show ?thesis by blast
qed

lemma match_end: "matchToks [] s = Some gs \<Longrightarrow> s = [] \<and> gs = []"
  by (auto split: if_splits)

lemma generic_groups:
  assumes m: "matchToks [Var ''principal'', Lit (CHR ''/''), Var ''calendarId'', Lit (CHR ''/''), Var x] s
              = Some gs"
    and x: "x \<noteq> ''principal''"
  shows "\<exists>P C U. s = P @ CHR ''/'' # C @ CHR ''/'' # U \<and> CHR ''/'' \<notin> set C \<and> CHR ''/'' \<notin> set U
           \<and> gs = [(''principal'', P), (''calendarId'', C), (x, U)]"
proof -
  from match_principal [OF m] obtain P r1 g1 where
    1: "s = P @ r1" "gs = (''principal'', P) # g1"
      "matchToks [Lit (CHR ''/''), Var ''calendarId'', Lit (CHR ''/''), Var x] r1 = Some g1"
    by blast
  from match_lit [OF 1(3)] obtain r2 where
    2: "r1 = CHR ''/'' # r2" "matchToks [Var ''calendarId'', Lit (CHR ''/''), Var x] r2 = Some g1"
    by blast
  from match_var [OF 2(2)] obtain C r3 g3 where
    3: "r2 = C @ r3" "CHR ''/'' \<notin> set C" "g1 = (''calendarId'', C) # g3"
      "matchToks [Lit (CHR ''/''), Var x] r3 = Some g3"
    by auto
  from match_lit [OF 3(4)] obtain r4 where
    4: "r3 = CHR ''/'' # r4" "matchToks [Var x] r4 = Some g3"
    by blast
  from match_var [OF 4(2) x] obtain U r5 g5 where
    5: "r4 = U @ r5" "CHR ''/'' \<notin> set U" "g3 = (x, U) # g5" "matchToks [] r5 = Some g5"
    by auto
  from match_end [OF 5(4)] have 6: "r5 = []" "g5 = []" by simp_all
  show ?thesis using 1 2 3 4 5 6 by simp
qed

lemma first_segment:
  "c \<notin> set u \<Longrightarrow> c \<notin> set u' \<Longrightarrow> u @ c # a = u' @ c # b \<Longrightarrow> u = u' \<and> a = b"
proof (induction u arbitrary: u')
  case Nil
  then show ?case by (cases u') auto
next
  case (Cons x u)
  then show ?case by (cases u') auto
qed

lemma last_segment:
  assumes "CHR ''/'' \<notin> set u" "CHR ''/'' \<notin> set u'" "a @ CHR ''/'' # u = b @ CHR ''/'' # u'"
  shows "a = b \<and> u = u'"
proof -
  have "rev u @ CHR ''/'' # rev a = rev u' @ CHR ''/'' # rev b"
    using arg_cong [OF assms(3), of rev] by simp
  moreover have "CHR ''/'' \<notin> set (rev u)" "CHR ''/'' \<notin> set (rev u')" using assms by simp_all
  ultimately have "rev u = rev u' \<and> rev a = rev b"
    by (intro first_segment [of "CHR ''/''"])
  then show ?thesis by simp
qed

lemma consHd_append: "ys \<noteq> [] \<Longrightarrow> consHd x (ys @ zs) = consHd x ys @ zs"
  by (cases ys) (simp_all add: consHd_def)

lemma splitStr_snoc: "c \<notin> set b \<Longrightarrow> splitStr [c] (a @ c # b) = splitStr [c] a @ [b]"
proof (induction a)
  case Nil
  then show ?case by (simp add: splitStr_none)
next
  case (Cons x a)
  then show ?case by (cases "c = x") (simp_all add: consHd_append splitStr_nonempty)
qed

lemma join_consHd: "ys \<noteq> [] \<Longrightarrow> join sep (consHd x ys) = x # join sep ys"
  by (cases ys) (simp_all add: consHd_def join_Cons)

lemma join_splitStr: "join [c] (splitStr [c] a) = a"
proof (induction a)
  case Nil
  then show ?case by simp
next
  case (Cons x a)
  show ?case
  proof (cases "x = c")
    case True
    then show ?thesis using Cons by (simp add: join_Cons splitStr_nonempty)
  next
    case False
    then show ?thesis using Cons by (simp add: join_consHd splitStr_nonempty)
  qed
qed

subsection \<open>The five templates\<close>

lemma template_paths:
  "templatePathOf componentsByCat = ''{principal}/{calendarId}/VTODO''"
  "templatePathOf metadataListCals = ''{principal}/_meta/calendars''"
  "templatePathOf componentsRange = ''{principal}/{calendarId}/{comp}''"
  "templatePathOf componentsQuery = ''{principal}/{calendarId}/{comp}''"
  "templatePathOf componentByUid = ''{principal}/{calendarId}/{uid}''"
  by code_simp+

lemma template_queries:
  "truthy (templateQueryOf componentsByCat)"
  "\<not> truthy (templateQueryOf metadataListCals)"
  "truthy (templateQueryOf componentsRange)"
  "truthy (templateQueryOf componentsQuery)"
  "\<not> truthy (templateQueryOf componentByUid)"
  by code_simp+

lemma template_names:
  "t_name componentsByCat = ''components-by-cat''"
  "t_name metadataListCals = ''metadata-list-cals''"
  "t_name componentsRange = ''components-range''"
  "t_name componentsQuery = ''components-query''"
  "t_name componentByUid = ''component-by-uid''"
  by (simp_all add: componentsByCat_def metadataListCals_def componentsRange_def
      componentsQuery_def componentByUid_def)

lemma generic_tokens:
  "tokens ''{principal}/{calendarId}/{comp}''
     = [Var ''principal'', Lit (CHR ''/''), Var ''calendarId'', Lit (CHR ''/''), Var ''comp'']"
  "tokens ''{principal}/{calendarId}/{uid}''
     = [Var ''principal'', Lit (CHR ''/''), Var ''calendarId'', Lit (CHR ''/''), Var ''uid'']"
  by code_simp+

lemma groups_byCat:
  "pathGroups componentsByCat pp =
     (if \<not> suffix ''/VTODO'' pp then None
      else
        (let parts = splitStr ''/'' (take (length pp - 6) pp)
         in if length parts < 2 then None
            else Some ((''principal'', join ''/'' (butlast parts))
                       # (if last parts \<noteq> [] then [(''calendarId'', last parts)] else []))))"
  by (simp add: pathGroups_def template_paths template_names)

lemma groups_meta:
  "pathGroups metadataListCals pp =
     (if \<not> suffix ''/_meta/calendars'' pp then None
      else Some [(''principal'', take (length pp - 16) pp)])"
  by (simp add: pathGroups_def template_paths template_names)

lemma groups_generic:
  "pathGroups componentsRange pp
     = matchToks [Var ''principal'', Lit (CHR ''/''), Var ''calendarId'', Lit (CHR ''/''), Var ''comp''] pp"
  "pathGroups componentsQuery pp
     = matchToks [Var ''principal'', Lit (CHR ''/''), Var ''calendarId'', Lit (CHR ''/''), Var ''comp''] pp"
  "pathGroups componentByUid pp
     = matchToks [Var ''principal'', Lit (CHR ''/''), Var ''calendarId'', Lit (CHR ''/''), Var ''uid''] pp"
  by (simp_all add: pathGroups_def template_paths template_names generic_tokens)

subsection \<open>A template that matches decodes what the earlier ones captured\<close>

lemma earlier_pairs:
  "[a, b, c, d, e] = pre @ t # post \<Longrightarrow> s \<in> set pre \<Longrightarrow>
   (s = a \<and> (t = b \<or> t = c \<or> t = d \<or> t = e)) \<or> (s = b \<and> (t = c \<or> t = d \<or> t = e))
   \<or> (s = c \<and> (t = d \<or> t = e)) \<or> (s = d \<and> t = e)"
  by (auto simp: Cons_eq_append_conv)

lemma generic_decoded:
  assumes m: "matchToks [Var ''principal'', Lit (CHR ''/''), Var ''calendarId'', Lit (CHR ''/''), Var x] pp
              = Some gs"
    and x: "x \<noteq> ''principal''"
    and d: "list_all (\<lambda>g. decodeURIComponent (snd g) \<noteq> None) gs"
  shows "\<exists>P C U. pp = P @ CHR ''/'' # C @ CHR ''/'' # U \<and> CHR ''/'' \<notin> set C \<and> CHR ''/'' \<notin> set U
           \<and> decodeURIComponent P \<noteq> None \<and> decodeURIComponent C \<noteq> None
           \<and> decodeURIComponent U \<noteq> None"
proof -
  from generic_groups [OF m x] obtain P C U where
    g: "pp = P @ CHR ''/'' # C @ CHR ''/'' # U" "CHR ''/'' \<notin> set C" "CHR ''/'' \<notin> set U"
      "gs = [(''principal'', P), (''calendarId'', C), (x, U)]"
    by blast
  from d g(4) have "decodeURIComponent P \<noteq> None \<and> decodeURIComponent C \<noteq> None
      \<and> decodeURIComponent U \<noteq> None" by simp
  with g show ?thesis by blast
qed

lemma byCat_after_generic:
  assumes pp: "pp = P @ CHR ''/'' # C @ CHR ''/'' # U"
    and c: "CHR ''/'' \<notin> set C" and u: "CHR ''/'' \<notin> set U"
    and d: "decodeURIComponent P \<noteq> None" "decodeURIComponent C \<noteq> None"
  shows "case pathGroups componentsByCat pp of
           None \<Rightarrow> True
         | Some gs \<Rightarrow> list_all (\<lambda>g. decodeURIComponent (snd g) \<noteq> None) gs"
proof (cases "suffix ''/VTODO'' pp")
  case False
  then show ?thesis by (simp add: groups_byCat)
next
  case True
  then obtain x where x: "pp = x @ ''/VTODO''" by (auto simp: suffix_def)
  have "(P @ CHR ''/'' # C) @ CHR ''/'' # U = x @ CHR ''/'' # ''VTODO''"
    using pp x by simp
  then have e: "P @ CHR ''/'' # C = x \<and> U = ''VTODO''"
    by (intro last_segment) (simp_all add: u)
  have t: "take (length pp - 6) pp = P @ CHR ''/'' # C" using x e by simp
  have s: "splitStr ''/'' (P @ CHR ''/'' # C) = splitStr ''/'' P @ [C]"
    using c by (rule splitStr_snoc)
  have l: "\<not> length (splitStr ''/'' P @ [C]) < 2"
    using splitStr_nonempty [of "''/''" P] by (cases "splitStr ''/'' P") simp_all
  have "pathGroups componentsByCat pp =
      Some ((''principal'', P) # (if C \<noteq> [] then [(''calendarId'', C)] else []))"
    using True l by (simp add: groups_byCat t s join_splitStr Let_def)
  then show ?thesis using d by simp
qed

lemma meta_after_generic:
  assumes pp: "pp = P @ CHR ''/'' # C @ CHR ''/'' # U"
    and c: "CHR ''/'' \<notin> set C" and u: "CHR ''/'' \<notin> set U"
    and d: "decodeURIComponent P \<noteq> None"
  shows "case pathGroups metadataListCals pp of
           None \<Rightarrow> True
         | Some gs \<Rightarrow> list_all (\<lambda>g. decodeURIComponent (snd g) \<noteq> None) gs"
proof (cases "suffix ''/_meta/calendars'' pp")
  case False
  then show ?thesis by (simp add: groups_meta)
next
  case True
  then obtain x where x: "pp = x @ ''/_meta/calendars''" by (auto simp: suffix_def)
  have "(P @ CHR ''/'' # C) @ CHR ''/'' # U = (x @ ''/_meta'') @ CHR ''/'' # ''calendars''"
    using pp x by simp
  then have "P @ CHR ''/'' # C = x @ ''/_meta'' \<and> U = ''calendars''"
    by (intro last_segment) (simp_all add: u)
  then have "P @ CHR ''/'' # C = x @ CHR ''/'' # ''_meta''" by simp
  then have "P = x \<and> C = ''_meta''"
    by (intro last_segment) (simp_all add: c)
  then have "take (length pp - 16) pp = P" using x by simp
  then show ?thesis using True d by (simp add: groups_meta)
qed

lemma generic_after_generic:
  assumes pp: "pp = P @ CHR ''/'' # C @ CHR ''/'' # U"
    and c: "CHR ''/'' \<notin> set C" and u: "CHR ''/'' \<notin> set U"
    and d: "decodeURIComponent P \<noteq> None" "decodeURIComponent C \<noteq> None"
      "decodeURIComponent U \<noteq> None"
    and x: "x \<noteq> ''principal''"
  shows "case matchToks [Var ''principal'', Lit (CHR ''/''), Var ''calendarId'', Lit (CHR ''/''), Var x] pp of
           None \<Rightarrow> True
         | Some gs \<Rightarrow> list_all (\<lambda>g. decodeURIComponent (snd g) \<noteq> None) gs"
proof (cases "matchToks [Var ''principal'', Lit (CHR ''/''), Var ''calendarId'', Lit (CHR ''/''), Var x] pp")
  case None
  then show ?thesis by simp
next
  case (Some gs)
  from generic_groups [OF Some x] obtain P' C' U' where
    g: "pp = P' @ CHR ''/'' # C' @ CHR ''/'' # U'" "CHR ''/'' \<notin> set C'" "CHR ''/'' \<notin> set U'"
      "gs = [(''principal'', P'), (''calendarId'', C'), (x, U')]"
    by blast
  have "(P @ CHR ''/'' # C) @ CHR ''/'' # U = (P' @ CHR ''/'' # C') @ CHR ''/'' # U'"
    using pp g(1) by simp
  then have 1: "P @ CHR ''/'' # C = P' @ CHR ''/'' # C' \<and> U = U'"
    by (intro last_segment) (simp_all add: u g)
  then have "P = P' \<and> C = C'"
    by (intro last_segment) (simp_all add: c g)
  then show ?thesis using Some g(4) d 1 by simp
qed

lemma suffix_exclusive: "suffix ''/_meta/calendars'' pp \<Longrightarrow> \<not> suffix ''/VTODO'' pp"
proof
  assume a: "suffix ''/_meta/calendars'' pp" and b: "suffix ''/VTODO'' pp"
  from a obtain x where "pp = x @ ''/_meta/calendars''" by (auto simp: suffix_def)
  moreover from b obtain y where "pp = y @ ''/VTODO''" by (auto simp: suffix_def)
  ultimately have "(x @ ''/_meta'') @ CHR ''/'' # ''calendars'' = y @ CHR ''/'' # ''VTODO''" by simp
  then have "x @ ''/_meta'' = y \<and> ''calendars'' = ''VTODO''"
    by (intro last_segment) simp_all
  then show False by simp
qed

lemma earlier_decodes:
  assumes st: "sortedTemplates = pre @ t # post" and s: "s \<in> set pre"
    and ns: "\<not> shapeMatches s wp" and mt: "shapeMatches t wp" and dt: "decodes t wp"
  shows "decodes s wp"
proof -
  let ?pp = "hd (splitStr ''?'' wp)"
  let ?q = "truthy (nthOpt (splitStr ''?'' wp) 1)"
  have gen: "\<exists>P C U. ?pp = P @ CHR ''/'' # C @ CHR ''/'' # U \<and> CHR ''/'' \<notin> set C \<and> CHR ''/'' \<notin> set U
           \<and> decodeURIComponent P \<noteq> None \<and> decodeURIComponent C \<noteq> None
           \<and> decodeURIComponent U \<noteq> None"
    if "t = componentsRange \<or> t = componentsQuery \<or> t = componentByUid"
  proof -
    obtain gs where gs: "pathGroups t ?pp = Some gs"
      using mt by (auto simp: shapeMatches_def)
    have "\<exists>x. x \<noteq> ''principal'' \<and> matchToks [Var ''principal'', Lit (CHR ''/''),
        Var ''calendarId'', Lit (CHR ''/''), Var x] ?pp = Some gs"
      using that
    proof (elim disjE)
      assume "t = componentsRange"
      then have "matchToks [Var ''principal'', Lit (CHR ''/''), Var ''calendarId'',
          Lit (CHR ''/''), Var ''comp''] ?pp = Some gs"
        using gs by (simp add: groups_generic del: matchToks.simps)
      then show ?thesis by (intro exI [of _ "''comp''"]) (simp del: matchToks.simps)
    next
      assume "t = componentsQuery"
      then have "matchToks [Var ''principal'', Lit (CHR ''/''), Var ''calendarId'',
          Lit (CHR ''/''), Var ''comp''] ?pp = Some gs"
        using gs by (simp add: groups_generic del: matchToks.simps)
      then show ?thesis by (intro exI [of _ "''comp''"]) (simp del: matchToks.simps)
    next
      assume "t = componentByUid"
      then have "matchToks [Var ''principal'', Lit (CHR ''/''), Var ''calendarId'',
          Lit (CHR ''/''), Var ''uid''] ?pp = Some gs"
        using gs by (simp add: groups_generic del: matchToks.simps)
      then show ?thesis by (intro exI [of _ "''uid''"]) (simp del: matchToks.simps)
    qed
    then obtain x where m: "matchToks [Var ''principal'', Lit (CHR ''/''), Var ''calendarId'',
          Lit (CHR ''/''), Var x] ?pp = Some gs" "x \<noteq> ''principal''" "pathGroups t ?pp = Some gs"
      using gs by blast
    have "list_all (\<lambda>g. decodeURIComponent (snd g) \<noteq> None) gs"
      using dt m(3) by (simp add: decodes_def)
    with m show ?thesis by (intro generic_decoded)
  qed
  from earlier_pairs [OF st [unfolded sortedTemplates_eq] s]
  consider "s = componentsByCat" "t = metadataListCals"
    | "s = componentsByCat" "t = componentsRange \<or> t = componentsQuery"
    | "s = componentsByCat" "t = componentByUid"
    | "s = metadataListCals" "t = componentsRange \<or> t = componentsQuery"
    | "s = metadataListCals" "t = componentByUid"
    | "s = componentsRange" "t = componentsQuery"
    | "s = componentsRange \<or> s = componentsQuery" "t = componentByUid"
    by blast
  then show ?thesis
  proof cases
    case 1
    then have "suffix ''/_meta/calendars'' ?pp"
      using mt by (auto simp: shapeMatches_def groups_meta split: if_splits)
    then have "pathGroups componentsByCat ?pp = None"
      using suffix_exclusive by (simp add: groups_byCat)
    then show ?thesis using 1 by (simp add: decodes_def)
  next
    case 2
    then have "?q" using mt by (auto simp: shapeMatches_def template_queries)
    then have "pathGroups componentsByCat ?pp = None"
      using ns 2 by (simp add: shapeMatches_def template_queries)
    then show ?thesis using 2 by (simp add: decodes_def)
  next
    case 3
    from gen obtain P C U where "?pp = P @ CHR ''/'' # C @ CHR ''/'' # U" "CHR ''/'' \<notin> set C"
        "CHR ''/'' \<notin> set U" "decodeURIComponent P \<noteq> None" "decodeURIComponent C \<noteq> None"
      using 3 by blast
    then show ?thesis unfolding decodes_def 3 by (rule byCat_after_generic)
  next
    case 4
    from gen obtain P C U where "?pp = P @ CHR ''/'' # C @ CHR ''/'' # U" "CHR ''/'' \<notin> set C"
        "CHR ''/'' \<notin> set U" "decodeURIComponent P \<noteq> None"
      using 4 by blast
    then show ?thesis unfolding decodes_def 4 by (rule meta_after_generic)
  next
    case 5
    then have "\<not> ?q" using mt by (simp add: shapeMatches_def template_queries)
    then have "pathGroups metadataListCals ?pp = None"
      using ns 5 by (simp add: shapeMatches_def template_queries)
    then show ?thesis using 5 by (simp add: decodes_def)
  next
    case 6
    then have "shapeMatches s wp"
      using mt by (simp add: shapeMatches_def template_queries groups_generic del: matchToks.simps)
    then show ?thesis using ns by simp
  next
    case 7
    from gen obtain P C U where g: "?pp = P @ CHR ''/'' # C @ CHR ''/'' # U" "CHR ''/'' \<notin> set C"
        "CHR ''/'' \<notin> set U" "decodeURIComponent P \<noteq> None" "decodeURIComponent C \<noteq> None"
        "decodeURIComponent U \<noteq> None"
      using 7 by blast
    have "pathGroups s ?pp = matchToks [Var ''principal'', Lit (CHR ''/''), Var ''calendarId'',
        Lit (CHR ''/''), Var ''comp''] ?pp"
      using 7 by (auto simp: groups_generic simp del: matchToks.simps)
    then show ?thesis
      unfolding decodes_def using generic_after_generic [OF g, of "''comp''"]
      by (simp del: matchToks.simps)
  qed
qed


subsection \<open>The errors of the parser\<close>

text \<open>
  The claim C7 as it is written fails on a malformed escape: the path of
  \<^verbatim>\<open>caldav://%zz//VTODO\<close> ends with \<^verbatim>\<open>/VTODO\<close>, so the first template decodes the
  principal \<^verbatim>\<open>%zz\<close> before it looks at the query, and \<open>decodeURIComponent\<close>
  raises \<^verbatim>\<open>URIError\<close>. No template matches the shape of the identifier, and the
  error is not \<open>NoMatch\<close>.
\<close>

theorem malformed_escape_counterexample:
  "prefix ''caldav://'' ''caldav://%zz//VTODO''
   \<and> \<not> shapeMatches componentsRange (withoutProtocol ''caldav://%zz//VTODO'')
   \<and> \<not> shapeMatches componentsByCat (withoutProtocol ''caldav://%zz//VTODO'')
   \<and> \<not> shapeMatches componentByUid (withoutProtocol ''caldav://%zz//VTODO'')
   \<and> \<not> shapeMatches componentsQuery (withoutProtocol ''caldav://%zz//VTODO'')
   \<and> \<not> shapeMatches metadataListCals (withoutProtocol ''caldav://%zz//VTODO'')
   \<and> pathGroups componentsByCat ''%zz//VTODO'' = Some [(''principal'', ''%zz'')]
   \<and> decodeURIComponent ''%zz'' = None
   \<and> map_sum id templateName (parseCalDavUri ''caldav://%zz//VTODO'') = Inl URIMalformed"
  by code_simp

text \<open>
  Claim C7, amended. \<open>parseCalDavUri\<close> fails with \<open>MalformedInput\<close> exactly when
  the identifier does not start with the scheme prefix. It fails with \<open>NoMatch\<close>
  exactly when the prefix is there, no template matches the shape of the
  identifier (its path, and a query exactly when the template has one), and
  every text that the path of a template captures is decoded without an error.
  When no template matches the shape and a captured text has a malformed escape,
  and when the first template that matches the shape captures such a text, it
  fails with the \<^verbatim>\<open>URIError\<close> of \<open>decodeURIComponent\<close>. When the first template
  that matches the shape decodes what it captures, it extracts variables, and if
  these fail validation the parser fails with \<open>ValidationError\<close> carrying the
  list of errors, whatever templates come later in the order.
\<close>

theorem parse_errors:
  "(parseCalDavUri uri = Inl MalformedInput \<longleftrightarrow> \<not> prefix ''caldav://'' uri) \<and>
   (parseCalDavUri uri = Inl (NoMatch uri) \<longleftrightarrow>
      prefix ''caldav://'' uri \<and>
      (\<forall>t \<in> set sortedTemplates.
         \<not> shapeMatches t (withoutProtocol uri) \<and> decodes t (withoutProtocol uri))) \<and>
   (prefix ''caldav://'' uri \<and>
    (\<forall>t \<in> set sortedTemplates. \<not> shapeMatches t (withoutProtocol uri)) \<and>
    (\<exists>t \<in> set sortedTemplates. \<not> decodes t (withoutProtocol uri))
    \<longrightarrow> parseCalDavUri uri = Inl URIMalformed) \<and>
   (prefix ''caldav://'' uri \<and> sortedTemplates = pre @ t # post \<and>
    (\<forall>s \<in> set pre. \<not> shapeMatches s (withoutProtocol uri)) \<and>
    shapeMatches t (withoutProtocol uri) \<and> \<not> decodes t (withoutProtocol uri)
    \<longrightarrow> parseCalDavUri uri = Inl URIMalformed) \<and>
   (prefix ''caldav://'' uri \<and> sortedTemplates = pre @ t # post \<and>
    (\<forall>s \<in> set pre. \<not> shapeMatches s (withoutProtocol uri)) \<and>
    shapeMatches t (withoutProtocol uri) \<and> decodes t (withoutProtocol uri)
    \<longrightarrow> (\<exists>vs. tryParseWithTemplate (withoutProtocol uri) t = Inr (Some vs) \<and>
          (\<not> isValid (validateTemplateVariables (t_name t) vs)
           \<longrightarrow> parseCalDavUri uri
                 = Inl (ValidationError (errors (validateTemplateVariables (t_name t) vs)))
               \<and> (\<forall>later. tryTemplates uri (withoutProtocol uri) (pre @ t # later)
                            = parseCalDavUri uri))))"
proof (intro conjI)
  let ?wp = "withoutProtocol uri"
  show "parseCalDavUri uri = Inl MalformedInput \<longleftrightarrow> \<not> prefix ''caldav://'' uri"
    by (simp add: parseCalDavUri_def tryTemplates_not_malformed)
  show "parseCalDavUri uri = Inl (NoMatch uri) \<longleftrightarrow>
      prefix ''caldav://'' uri \<and>
      (\<forall>t \<in> set sortedTemplates. \<not> shapeMatches t ?wp \<and> decodes t ?wp)"
    by (simp add: parseCalDavUri_def tryTemplates_NoMatch tryParse_None)
  show "prefix ''caldav://'' uri \<and>
    (\<forall>t \<in> set sortedTemplates. \<not> shapeMatches t ?wp) \<and>
    (\<exists>t \<in> set sortedTemplates. \<not> decodes t ?wp)
    \<longrightarrow> parseCalDavUri uri = Inl URIMalformed"
    by (auto simp: parseCalDavUri_def tryTemplates_no_shape)
  show "prefix ''caldav://'' uri \<and> sortedTemplates = pre @ t # post \<and>
    (\<forall>s \<in> set pre. \<not> shapeMatches s ?wp) \<and> shapeMatches t ?wp \<and> \<not> decodes t ?wp
    \<longrightarrow> parseCalDavUri uri = Inl URIMalformed"
  proof (intro impI, elim conjE)
    assume "prefix ''caldav://'' uri" and st: "sortedTemplates = pre @ t # post"
      and "\<forall>s \<in> set pre. \<not> shapeMatches s ?wp" and "\<not> decodes t ?wp"
    then have "tryTemplates uri ?wp (pre @ t # post) = Inl URIMalformed"
      by (intro tryTemplates_undecodable)
    then show "parseCalDavUri uri = Inl URIMalformed"
      using \<open>prefix ''caldav://'' uri\<close> by (simp add: parseCalDavUri_def st)
  qed
  show "prefix ''caldav://'' uri \<and> sortedTemplates = pre @ t # post \<and>
    (\<forall>s \<in> set pre. \<not> shapeMatches s ?wp) \<and> shapeMatches t ?wp \<and> decodes t ?wp
    \<longrightarrow> (\<exists>vs. tryParseWithTemplate ?wp t = Inr (Some vs) \<and>
          (\<not> isValid (validateTemplateVariables (t_name t) vs)
           \<longrightarrow> parseCalDavUri uri
                 = Inl (ValidationError (errors (validateTemplateVariables (t_name t) vs)))
               \<and> (\<forall>later. tryTemplates uri ?wp (pre @ t # later) = parseCalDavUri uri)))"
  proof (intro impI, elim conjE)
    assume pre: "prefix ''caldav://'' uri" and st: "sortedTemplates = pre @ t # post"
      and ns: "\<forall>s \<in> set pre. \<not> shapeMatches s ?wp"
      and mt: "shapeMatches t ?wp" and dt: "decodes t ?wp"
    have none: "\<forall>s \<in> set pre. tryParseWithTemplate ?wp s = Inr None"
      using ns earlier_decodes [OF st _ _ mt dt] by (simp add: tryParse_None)
    have "tryParseWithTemplate ?wp t \<noteq> Inr None" using mt by (simp add: tryParse_None)
    moreover have "tryParseWithTemplate ?wp t \<noteq> Inl e" for e using dt by (simp add: tryParse_Inl)
    ultimately obtain vs where some: "tryParseWithTemplate ?wp t = Inr (Some vs)"
      by (cases "tryParseWithTemplate ?wp t") auto
    have "parseCalDavUri uri
            = Inl (ValidationError (errors (validateTemplateVariables (t_name t) vs)))
          \<and> (\<forall>later. tryTemplates uri ?wp (pre @ t # later) = parseCalDavUri uri)"
      if inv: "\<not> isValid (validateTemplateVariables (t_name t) vs)"
    proof -
      have any: "tryTemplates uri ?wp (pre @ t # later) =
          Inl (ValidationError (errors (validateTemplateVariables (t_name t) vs)))" for later
        by (rule tryTemplates_first_invalid [OF none some inv])
      have "parseCalDavUri uri = tryTemplates uri ?wp (pre @ t # post)"
        using pre by (simp add: parseCalDavUri_def st)
      with any show ?thesis by simp
    qed
    with some show "\<exists>vs. tryParseWithTemplate ?wp t = Inr (Some vs) \<and>
          (\<not> isValid (validateTemplateVariables (t_name t) vs)
           \<longrightarrow> parseCalDavUri uri
                 = Inl (ValidationError (errors (validateTemplateVariables (t_name t) vs)))
               \<and> (\<forall>later. tryTemplates uri ?wp (pre @ t # later) = parseCalDavUri uri))"
      by blast
  qed
qed

theorem parse_errors_witness:
  "parseCalDavUri ''http://example.com/calendar'' = Inl MalformedInput \<and>
   parseCalDavUri ''caldav://invalid/structure'' = Inl (NoMatch ''caldav://invalid/structure'') \<and>
   parseCalDavUri ''caldav://100%//VTODO'' = Inl URIMalformed \<and>
   parseCalDavUri ''caldav://100%/cal/VTODO?cat=x'' = Inl URIMalformed \<and>
   parseCalDavUri ''caldav://users/john/cal/VEVENT?filter=x'' =
     Inl (ValidationError [''Missing required variable: start'', ''Missing required variable: end''])"
proof -
  have 1: "\<not> prefix ''caldav://'' ''http://example.com/calendar''" by simp
  from parse_errors [of "''http://example.com/calendar''"] 1
  have a: "parseCalDavUri ''http://example.com/calendar'' = Inl MalformedInput" by blast
  have 2: "prefix ''caldav://'' ''caldav://invalid/structure''" by simp
  have "list_all (\<lambda>t. \<not> shapeMatches t (withoutProtocol ''caldav://invalid/structure'')
          \<and> decodes t (withoutProtocol ''caldav://invalid/structure'')) sortedTemplates"
    by code_simp
  then have 3: "\<forall>t \<in> set sortedTemplates.
      \<not> shapeMatches t (withoutProtocol ''caldav://invalid/structure'')
      \<and> decodes t (withoutProtocol ''caldav://invalid/structure'')"
    by (simp add: list_all_iff)
  from parse_errors [of "''caldav://invalid/structure''"] 2 3
  have b: "parseCalDavUri ''caldav://invalid/structure'' = Inl (NoMatch ''caldav://invalid/structure'')"
    by blast
  let ?m = "''caldav://100%//VTODO''"
  have m1: "prefix ''caldav://'' ?m" by simp
  have "list_all (\<lambda>t. \<not> shapeMatches t (withoutProtocol ?m)) sortedTemplates" by code_simp
  then have m2: "\<forall>t \<in> set sortedTemplates. \<not> shapeMatches t (withoutProtocol ?m)"
    by (simp add: list_all_iff)
  have "list_ex (\<lambda>t. \<not> decodes t (withoutProtocol ?m)) sortedTemplates" by code_simp
  then have m3: "\<exists>t \<in> set sortedTemplates. \<not> decodes t (withoutProtocol ?m)"
    by (simp add: list_ex_iff)
  from parse_errors [of ?m] m1 m2 m3
  have c: "parseCalDavUri ?m = Inl URIMalformed" by blast
  let ?n = "''caldav://100%/cal/VTODO?cat=x''"
  have n1: "prefix ''caldav://'' ?n" by simp
  have n2: "sortedTemplates = [] @ componentsByCat #
      [metadataListCals, componentsRange, componentsQuery, componentByUid]"
    by (simp add: sortedTemplates_eq)
  have n3: "shapeMatches componentsByCat (withoutProtocol ?n)" by code_simp
  have n4: "\<not> decodes componentsByCat (withoutProtocol ?n)" by code_simp
  from parse_errors [of ?n "[]" componentsByCat
      "[metadataListCals, componentsRange, componentsQuery, componentByUid]"] n1 n2 n3 n4
  have d: "parseCalDavUri ?n = Inl URIMalformed" by simp
  let ?u = "''caldav://users/john/cal/VEVENT?filter=x''"
  let ?vs = "[(''principal'', ''users/john''), (''calendarId'', ''cal''), (''comp'', ''VEVENT'')]"
  have 4: "prefix ''caldav://'' ?u" by simp
  have 5: "sortedTemplates = [componentsByCat, metadataListCals] @ componentsRange #
      [componentsQuery, componentByUid]"
    by (simp add: sortedTemplates_eq)
  have "list_all (\<lambda>s. \<not> shapeMatches s (withoutProtocol ?u)) [componentsByCat, metadataListCals]"
    by code_simp
  then have 6: "\<forall>s \<in> set [componentsByCat, metadataListCals]. \<not> shapeMatches s (withoutProtocol ?u)"
    by (simp add: list_all_iff)
  have 7: "shapeMatches componentsRange (withoutProtocol ?u)"
      "decodes componentsRange (withoutProtocol ?u)"
    by code_simp+
  have 8: "tryParseWithTemplate (withoutProtocol ?u) componentsRange = Inr (Some ?vs)"
    by code_simp
  have 9: "\<not> isValid (validateTemplateVariables (t_name componentsRange) ?vs)"
    by code_simp
  have 10: "errors (validateTemplateVariables (t_name componentsRange) ?vs) =
      [''Missing required variable: start'', ''Missing required variable: end'']"
    by code_simp
  from parse_errors [of ?u "[componentsByCat, metadataListCals]" componentsRange
      "[componentsQuery, componentByUid]"] 4 5 6 7
  obtain vs where v: "tryParseWithTemplate (withoutProtocol ?u) componentsRange = Inr (Some vs)"
      "\<not> isValid (validateTemplateVariables (t_name componentsRange) vs)
       \<longrightarrow> parseCalDavUri ?u
            = Inl (ValidationError (errors (validateTemplateVariables (t_name componentsRange) vs)))"
    by blast
  from v(1) 8 have "vs = ?vs" by simp
  with v(2) 9 10 have e: "parseCalDavUri ?u =
      Inl (ValidationError [''Missing required variable: start'', ''Missing required variable: end''])"
    by simp
  from a b c d e show ?thesis by simp
qed

section \<open>Building and parsing an identifier\<close>

theorem build_parse_counterexample:
  "isValid (validateTemplateVariables ''component-by-uid'' metaUidVars) \<and>
   buildCalDavUri ''component-by-uid'' metaUidVars = Inr ''caldav://p/_meta/calendars'' \<and>
   map_sum id (\<lambda>r. (templateName r, p_variables r)) (parseCalDavUri ''caldav://p/_meta/calendars'') =
     Inr (''metadata-list-cals'', [(''principal'', ''p'')])"
  by code_simp

section \<open>Escaping in the query documents\<close>

text \<open>
  Claim C6 fails on the code. \<open>buildCalendarQuery\<close> escapes the category filter,
  the identifier filter and the expression filter, and \<open>buildMultiget\<close> the
  hrefs, but the component type and the bounds of the time range are written
  into attribute values as they are: with the component type \<^verbatim>\<open>a"<b\<close> and the
  start \<^verbatim>\<open><"\<close>, the quotation mark and the angle bracket reach the document,
  where the same text as a category filter is escaped.
\<close>

theorem query_text_not_escaped:
  \<open>calendarQueryParts quoteOptions =
     [''<?xml version="1.0" encoding="utf-8"?>'',
      ''<C:calendar-query xmlns:C="urn:ietf:params:xml:ns:caldav" xmlns:D="DAV:">'',
      ''  <D:prop>'',
      ''    <D:getetag/>'',
      ''    <C:calendar-data/>'',
      ''  </D:prop>'',
      ''  <C:filter>'',
      ''    <C:comp-filter name="VCALENDAR">'',
      ''      <C:comp-filter name="a"<b">'',
      ''        <C:time-range start="<"T00:00:00Z"/>'',
      ''        <C:prop-filter name="CATEGORIES">'',
      ''          <C:text-match collation="i;ascii-casemap">a&quot;&lt;b</C:text-match>'',
      ''        </C:prop-filter>'',
      ''      </C:comp-filter>'',
      ''    </C:comp-filter>'',
      ''  </C:filter>'',
      ''</C:calendar-query>''] \<and>
   escapeXml ''a"<b'' = ''a&quot;&lt;b''\<close>
  by code_simp

section \<open>The expression filter on the length of a list\<close>

text \<open>
  Claim C2 fails on the code for the operator \<^verbatim>\<open>==\<close>. The \<^verbatim>\<open>switch\<close> of
  \<open>filterByJmesExpression\<close> has a case for it, but an expression with \<^verbatim>\<open>==\<close>
  is taken by the first branch, the comparison of a property with a string: for
  \<^verbatim>\<open>length(categories) == 2\<close> the path is \<^verbatim>\<open>length(categories)\<close>, no component has
  such a property, and a component with two categories is dropped. The pattern
  of the length comparison matches the expression, and its filter keeps the
  component, as the filter with \<^verbatim>\<open>>=\<close> does.
\<close>

theorem length_equals_not_compared:
  "filterByJmesExpression twoCategories ''length(categories) == 2'' = [] \<and>
   findMatch lengthAt ''length(categories) == 2'' = Some (''categories'', ''=='', ''2'') \<and>
   filter (lengthFilter (''categories'', ''=='', ''2'')) twoCategories = twoCategories \<and>
   filterByJmesExpression twoCategories ''length(categories) >= 2'' = twoCategories"
  by code_simp

section \<open>The handler catches every failure\<close>

lemma handleMetadataRequest_status:
  "handleMetadataRequest env parsed discovery = Inr r \<Longrightarrow> res_status r = 200"
  by (auto simp: handleMetadataRequest_def split: if_splits)

lemma handleCalendarRequest_status:
  "handleCalendarRequest env h parsed discovery timeout = Inr r \<Longrightarrow> res_status r = 200"
  by (auto simp: handleCalendarRequest_def Let_def split: option.splits sum.splits)

lemma tryBlock_status: "fst (tryBlock env h context) = Inr r \<Longrightarrow> res_status r = 200"
  by (auto simp: tryBlock_def split: sum.splits prod.splits if_splits
      dest: handleMetadataRequest_status handleCalendarRequest_status)

lemma errorResponse_content:
  \<open>res_content (errorResponse env error) =
     ''{"error":'' @ jsonQuote (case error of ErrorObj m \<Rightarrow> m | NonError \<Rightarrow> ''Unknown error'')
       @ '',"timestamp":'' @ jsonQuote (isoNow env) @ ''}''\<close>
proof -
  have q: \<open>jsonQuote ''error'' = ''"error"''\<close> \<open>jsonQuote ''timestamp'' = ''"timestamp"''\<close>
    by code_simp+
  show ?thesis by (simp add: errorResponse_def q)
qed

lemma errorResponse_fields:
  "res_status (errorResponse env error) = 400"
  "res_mimeType (errorResponse env error) = ''application/json''"
  by (simp_all add: errorResponse_def)

lemma handleRequest_response:
  \<open>\<exists>response h'.
     handleRequest env h context = (Inr response, h') \<and>
     (res_status response = 200 \<or> res_status response = 400) \<and>
     (\<forall>error. fst (tryBlock env h context) = Inl error \<longrightarrow>
        res_status response = 400 \<and> res_mimeType response = ''application/json'' \<and>
        res_content response =
          ''{"error":'' @ jsonQuote (case error of ErrorObj m \<Rightarrow> m | NonError \<Rightarrow> ''Unknown error'')
            @ '',"timestamp":'' @ jsonQuote (isoNow env) @ ''}'') \<and>
     (\<forall>r. fst (tryBlock env h context) = Inr r \<longrightarrow> response = r \<and> res_status response = 200)\<close>
proof (cases "tryBlock env h context")
  case (Pair res h1)
  show ?thesis
  proof (cases res)
    case (Inl error)
    with Pair have hr: "handleRequest env h context = (Inr (errorResponse env error), h1)"
      by (simp add: handleRequest_def)
    show ?thesis
      using Pair Inl unfolding hr
      by (simp add: errorResponse_fields errorResponse_content del: append.simps)
  next
    case (Inr r)
    with Pair have hr: "handleRequest env h context = (Inr r, h1)"
      by (simp add: handleRequest_def)
    have st: "res_status r = 200"
      using Pair Inr tryBlock_status [of env h "context" r] by simp
    show ?thesis
      using Pair Inr st unfolding hr by simp
  qed
qed

lemma tryBlock_parse_fails:
  "parseCalDavUri (ctx_uri context) = Inl e \<Longrightarrow> fst (tryBlock env h context) = Inl (ErrorObj (message e))"
  by (simp add: tryBlock_def)

lemma tryBlock_discovery_fails:
  "parseCalDavUri (ctx_uri context) = Inr parsed \<Longrightarrow> fst (getDiscoveryResult env h) = Inl e
   \<Longrightarrow> fst (tryBlock env h context) = Inl e"
  by (auto simp: tryBlock_def split: sum.splits prod.splits)

lemma tryBlock_request_fails:
  "parseCalDavUri (ctx_uri context) = Inr parsed \<Longrightarrow> getDiscoveryResult env h = (Inr discovery, h1)
   \<Longrightarrow> (if isMetadataRequest (templateName parsed) then handleMetadataRequest env parsed discovery
        else handleCalendarRequest env h1 parsed discovery (ctx_timeout context)) = Inl e
   \<Longrightarrow> fst (tryBlock env h context) = Inl e"
  by (auto simp: tryBlock_def split: sum.splits prod.splits if_splits)

text \<open>
  Claim C8. For every request, in every state of the handler and whatever the
  collaborators do, \<open>handleRequest\<close> returns a response: its status is 200 or
  400; when the \<^verbatim>\<open>try\<close> block fails the status is 400, the type is
  \<^verbatim>\<open>application/json\<close> and the content is the JSON object of the message of the
  error and of the timestamp; when it succeeds the status is 200. A failure of
  the parse of the identifier, of the discovery, or of the metadata or calendar
  request is a failure of the \<^verbatim>\<open>try\<close> block.
\<close>

theorem handleRequest_never_throws:
  \<open>(\<exists>response h'.
     handleRequest env h context = (Inr response, h') \<and>
     (res_status response = 200 \<or> res_status response = 400) \<and>
     (\<forall>error. fst (tryBlock env h context) = Inl error \<longrightarrow>
        res_status response = 400 \<and> res_mimeType response = ''application/json'' \<and>
        res_content response =
          ''{"error":'' @ jsonQuote (case error of ErrorObj m \<Rightarrow> m | NonError \<Rightarrow> ''Unknown error'')
            @ '',"timestamp":'' @ jsonQuote (isoNow env) @ ''}'') \<and>
     (\<forall>r. fst (tryBlock env h context) = Inr r \<longrightarrow> response = r \<and> res_status response = 200)) \<and>
   (\<forall>e. parseCalDavUri (ctx_uri context) = Inl e \<longrightarrow>
      fst (tryBlock env h context) = Inl (ErrorObj (message e))) \<and>
   (\<forall>parsed e. parseCalDavUri (ctx_uri context) = Inr parsed \<and> fst (getDiscoveryResult env h) = Inl e
      \<longrightarrow> fst (tryBlock env h context) = Inl e) \<and>
   (\<forall>parsed discovery h1 e. parseCalDavUri (ctx_uri context) = Inr parsed
      \<and> getDiscoveryResult env h = (Inr discovery, h1)
      \<and> (if isMetadataRequest (templateName parsed) then handleMetadataRequest env parsed discovery
          else handleCalendarRequest env h1 parsed discovery (ctx_timeout context)) = Inl e
      \<longrightarrow> fst (tryBlock env h context) = Inl e)\<close>
  using handleRequest_response [of env h "context"]
    tryBlock_parse_fails [of "context" _ env h]
    tryBlock_discovery_fails [of "context" _ env h]
    tryBlock_request_fails [of "context" _ env h]
  by blast

theorem handleRequest_never_throws_witness:
  \<open>fst (handleRequest exampleEnv exampleHandler \<lparr>ctx_uri = ''http://example.com/x'', ctx_timeout = None\<rparr>) =
     Inr \<lparr>res_content = ''{"error":"URI must start with caldav://","timestamp":"2024-01-15T00:00:00.000Z"}'',
          res_mimeType = ''application/json'', res_status = 400\<rparr> \<and>
   fst (handleRequest exampleEnv exampleHandler
          \<lparr>ctx_uri = ''caldav://users/john/work/VEVENT?start=2024-01-01&end=2024-01-31'', ctx_timeout = Some 10\<rparr>) =
     Inr \<lparr>res_content = ''{"error":"CalDAV server request timed out","timestamp":"2024-01-15T00:00:00.000Z"}'',
          res_mimeType = ''application/json'', res_status = 400\<rparr> \<and>
   map_sum id res_status (fst (handleRequest exampleEnv exampleHandler
          \<lparr>ctx_uri = ''caldav://users/john/_meta/calendars'', ctx_timeout = None\<rparr>)) = Inr 200\<close>
proof -
  let ?c1 = "\<lparr>ctx_uri = ''http://example.com/x'', ctx_timeout = None\<rparr>"
  let ?c2 = "\<lparr>ctx_uri = ''caldav://users/john/work/VEVENT?start=2024-01-01&end=2024-01-31'',
    ctx_timeout = Some 10\<rparr>"
  let ?c3 = "\<lparr>ctx_uri = ''caldav://users/john/_meta/calendars'', ctx_timeout = None\<rparr>"
  have t1: "fst (tryBlock exampleEnv exampleHandler ?c1) = Inl (ErrorObj ''URI must start with caldav://'')"
    by code_simp
  have t2: "fst (tryBlock exampleEnv exampleHandler ?c2) = Inl (ErrorObj ''CalDAV server request timed out'')"
    by code_simp
  have t3: "map_sum id res_status (fst (tryBlock exampleEnv exampleHandler ?c3)) = Inr 200"
    by code_simp
  have q: \<open>jsonQuote ''URI must start with caldav://'' = ''"URI must start with caldav://"''\<close>
    \<open>jsonQuote ''CalDAV server request timed out'' = ''"CalDAV server request timed out"''\<close>
    \<open>jsonQuote (isoNow exampleEnv) = ''"2024-01-15T00:00:00.000Z"''\<close>
    by code_simp+
  from handleRequest_never_throws [of exampleEnv exampleHandler ?c1] t1 q
  have 1: \<open>fst (handleRequest exampleEnv exampleHandler ?c1) =
     Inr \<lparr>res_content = ''{"error":"URI must start with caldav://","timestamp":"2024-01-15T00:00:00.000Z"}'',
          res_mimeType = ''application/json'', res_status = 400\<rparr>\<close>
    by auto
  from handleRequest_never_throws [of exampleEnv exampleHandler ?c2] t2 q
  have 2: \<open>fst (handleRequest exampleEnv exampleHandler ?c2) =
     Inr \<lparr>res_content = ''{"error":"CalDAV server request timed out","timestamp":"2024-01-15T00:00:00.000Z"}'',
          res_mimeType = ''application/json'', res_status = 400\<rparr>\<close>
    by auto
  from handleRequest_never_throws [of exampleEnv exampleHandler ?c3] t3
  have 3: "map_sum id res_status (fst (handleRequest exampleEnv exampleHandler ?c3)) = Inr 200"
    by (cases "fst (tryBlock exampleEnv exampleHandler ?c3)") auto
  from 1 2 3 show ?thesis by simp
qed

section \<open>The round trip of a document\<close>

lemma preserved_serialisable:
  assumes p: "preserved c" and o: "parsedOk c" and u: "truthy (uid c)"
  shows "serialisable c"
proof -
  obtain t where t: "componentType c = Some t" "t \<noteq> []"
    using o by (auto simp: parsedOk_def truthy_def split: option.splits)
  have ct: "compTypeOf c = t" using t by (simp add: compTypeOf_def truthy_def)
  have "typeOk t" using o t by (simp add: parsedOk_def optAll_def)
  moreover have "noTrailingSpace t" using p t by (simp add: preserved_def optAll_def)
  ultimately have ty: "isBegin (''BEGIN:'' @ t)" "CHR '':'' \<notin> set t" "rawOk t"
    by (simp_all add: typeOk_def rawOk_def noTrailingSpace_def)
  have pr: "optAll (\<lambda>p. case p of NaN \<Rightarrow> True | Num i \<Rightarrow> \<bar>i\<bar> < 2 ^ 53) (priority c)"
    using p by (auto simp: preserved_def optAll_def split: option.splits jsnum.splits)
  show ?thesis
    using p o u ty pr by (simp add: serialisable_def ct preserved_def parsedOk_def)
qed

lemma populated_keep: "populated v \<Longrightarrow> (if truthy v then v else None) = v"
  by (cases v) (auto simp: populated_def truthy_def)

lemma populated_strip:
  "populated v \<Longrightarrow> (if truthy v then Some (stripDate (the v)) else None) = map_option stripDate v"
  by (cases v) (auto simp: populated_def truthy_def)

lemma preserved_reparsed:
  assumes p: "preserved c" and o: "parsedOk c"
  shows "reparsed c = stripped c"
proof -
  obtain t where t: "componentType c = Some t" "t \<noteq> []"
    using o by (auto simp: parsedOk_def truthy_def split: option.splits)
  have "compTypeOf c = t" using t by (simp add: compTypeOf_def truthy_def)
  then have "componentType (reparsed c) = componentType (stripped c)"
    using t by (simp add: reparsed_def stripped_def)
  moreover have "summary (reparsed c) = summary (stripped c)"
      "description (reparsed c) = description (stripped c)"
      "location (reparsed c) = location (stripped c)"
    using p by (simp_all add: preserved_def reparsed_def stripped_def populated_keep)
  moreover have "dtstart (reparsed c) = dtstart (stripped c)"
      "dtend (reparsed c) = dtend (stripped c)"
    using p by (simp_all add: preserved_def reparsed_def stripped_def populated_strip)
  moreover have "status (reparsed c) = status (stripped c)"
    using p o
    by (auto simp: preserved_def parsedOk_def reparsed_def stripped_def populated_def truthy_def
        optAll_def split: option.splits)
  moreover have "categories (reparsed c) = categories (stripped c)"
    using o by (auto simp: parsedOk_def reparsed_def stripped_def split: option.splits)
  moreover have "priority (reparsed c) = priority (stripped c)"
    using p
    by (auto simp: preserved_def reparsed_def stripped_def truthyNum_def optAll_def
        split: option.splits jsnum.splits)
  moreover have "uid (reparsed c) = uid (stripped c)" "others (reparsed c) = others (stripped c)"
      "CalendarComponent.more (reparsed c) = CalendarComponent.more (stripped c)"
    by (simp_all add: reparsed_def stripped_def)
  ultimately show ?thesis by (intro CalendarComponent.equality) simp_all
qed

lemma preserved_all:
  "list_all preserved cs \<Longrightarrow> list_all (\<lambda>c. truthy (uid c) \<and> parsedOk c) cs \<Longrightarrow>
   list_all serialisable cs \<and> map reparsed cs = map stripped cs"
  by (induction cs) (simp_all add: preserved_serialisable preserved_reparsed)

text \<open>
  The claim C1 as it is written, for every document, fails on a task with the
  priority 0: the parser stores the number 0, the serialiser writes a priority
  only when it is truthy, and the second parse returns a component without the
  field. The uid and the type are the same; the set of fields is not.
\<close>

theorem zero_priority_counterexample:
  "map uid (parseICalendarData undefinedPriorityDoc) = [Some ''task1@example.com'']
   \<and> map componentType (parseICalendarData undefinedPriorityDoc) = [Some ''VTODO'']
   \<and> map priority (parseICalendarData undefinedPriorityDoc) = [Some (Num 0)]
   \<and> map priority (parseICalendarData (componentsToICalendar (parseICalendarData undefinedPriorityDoc)))
       = [None]
   \<and> parseICalendarData (componentsToICalendar (parseICalendarData undefinedPriorityDoc))
       \<noteq> parseICalendarData undefinedPriorityDoc"
  by code_simp

text \<open>
  The type changes when a colon follows it after white space: the parser takes
  the text between the first two colons of the trimmed line, and trims the line
  that the serialiser writes.
\<close>

lemma type_colon_example:
  "map componentType (parseICalendarData typeColonDoc) = [Some ''VEVENT '']
   \<and> map componentType (parseICalendarData (componentsToICalendar (parseICalendarData typeColonDoc)))
       = [Some ''VEVENT'']"
  by code_simp

text \<open>
  Claim C1, amended. Let every component that the document parses to satisfy
  \<open>preserved\<close>: its type does not end in white space; its summary, description,
  location, status, start and end, when present, are not empty; its summary,
  description and location have no carriage return and no backslash before an
  \<open>n\<close>, and their escaped form does not end in white space; each of its
  categories has no carriage return, no backslash before an \<open>n\<close> and no
  backslash at its end, and its escaped form has no white space at either end;
  its priority, when present, is an integer other than 0 and below \<open>2 ^ 53\<close> in
  absolute value. Then parsing the serialisation of the parsed document gives
  the same components in the same order, each with the same uid, type, summary,
  description, location, status, priority and categories, with a start and an
  end exactly when it had one, reduced to its digits, \<open>T\<close> and \<open>Z\<close>, and
  without its extension properties.
\<close>

theorem document_roundtrip:
  assumes "list_all preserved (parseICalendarData doc)"
  shows "parseICalendarData (componentsToICalendar (parseICalendarData doc))
         = map stripped (parseICalendarData doc)"
proof -
  have "list_all serialisable (parseICalendarData doc)
      \<and> map reparsed (parseICalendarData doc) = map stripped (parseICalendarData doc)"
    using assms parsed_ok by (rule preserved_all)
  then show ?thesis using read_document by simp
qed

lemma escapedDoc_preserved: "list_all preserved (parseICalendarData escapedDoc)"
  by code_simp

lemma escapedDoc_fields:
  "map summary (parseICalendarData escapedDoc) = [Some ''Review, plan; decide'']"
  "map description (parseICalendarData escapedDoc) = [Some (''Line one'' @ [LF] @ ''Line two'')]"
  "map location (parseICalendarData escapedDoc) = [Some ''Room A, Building 1'']"
  "map categories (parseICalendarData escapedDoc) = [Some [''Work'', ''Team,Ops'']]"
  "map dtstart (parseICalendarData escapedDoc) = [Some ''20240115T100000 (Europe/Berlin)'']"
  "map others (parseICalendarData escapedDoc)
     = [[(''dtstamp'', ''20240101T000000Z''), (''x-color'', ''blue'')]]"
  "map stripped (parseICalendarData escapedDoc) =
     [\<lparr>uid = Some ''event1@example.com'', componentType = Some ''VEVENT'',
       summary = Some ''Review, plan; decide'', dtstart = Some ''20240115T100000'',
       dtend = Some ''20240115T110000Z'', categories = Some [''Work'', ''Team,Ops''],
       status = Some ''CONFIRMED'', priority = Some (Num 1),
       description = Some (''Line one'' @ [LF] @ ''Line two''),
       location = Some ''Room A, Building 1'', others = []\<rparr>]"
  by code_simp+

text \<open>
  The document of the claim: an event with categories, a description, a location
  and the three escapes  \<^verbatim>\<open>\,\<close>, \<^verbatim>\<open>\;\<close> and \<^verbatim>\<open>\n\<close>, here also with a time zone
  and extension properties.
\<close>

theorem document_roundtrip_witness:
  "list_all preserved (parseICalendarData escapedDoc)
   \<and> map summary (parseICalendarData escapedDoc) = [Some ''Review, plan; decide'']
   \<and> map description (parseICalendarData escapedDoc) = [Some (''Line one'' @ [LF] @ ''Line two'')]
   \<and> map location (parseICalendarData escapedDoc) = [Some ''Room A, Building 1'']
   \<and> map categories (parseICalendarData escapedDoc) = [Some [''Work'', ''Team,Ops'']]
   \<and> map dtstart (parseICalendarData escapedDoc) = [Some ''20240115T100000 (Europe/Berlin)'']
   \<and> map others (parseICalendarData escapedDoc)
       = [[(''dtstamp'', ''20240101T000000Z''), (''x-color'', ''blue'')]]
   \<and> parseICalendarData (componentsToICalendar (parseICalendarData escapedDoc)) =
     [\<lparr>uid = Some ''event1@example.com'', componentType = Some ''VEVENT'',
       summary = Some ''Review, plan; decide'', dtstart = Some ''20240115T100000'',
       dtend = Some ''20240115T110000Z'', categories = Some [''Work'', ''Team,Ops''],
       status = Some ''CONFIRMED'', priority = Some (Num 1),
       description = Some (''Line one'' @ [LF] @ ''Line two''),
       location = Some ''Room A, Building 1'', others = []\<rparr>]"
  using document_roundtrip [OF escapedDoc_preserved] escapedDoc_preserved escapedDoc_fields
  by simp

section \<open>The priority line\<close>

text \<open>
  Claim C10. Among the lines that \<open>componentsToICalendar\<close> writes for a component
  there is a \<^verbatim>\<open>PRIORITY:\<close> line exactly when the priority is present and truthy
  (a number that is neither 0 nor NaN). A component with priority 0 that can be
  written is read back from the serialisation without a priority.
\<close>

theorem priority_emission:
  "list_ex (prefix ''PRIORITY:'') (componentLines c) = truthyNum (priority c)
   \<and> (serialisable c \<and> priority c = Some (Num 0) \<longrightarrow>
        map priority (parseICalendarData (componentsToICalendar [c])) = [None])"
proof (intro conjI impI)
  show "list_ex (prefix ''PRIORITY:'') (componentLines c) = truthyNum (priority c)"
    by (simp add: componentLines_def category_lines)
next
  assume a: "serialisable c \<and> priority c = Some (Num 0)"
  then have "parseICalendarData (componentsToICalendar [c]) = [reparsed c]"
    using read_document [of "[c]"] by simp
  moreover have "priority (reparsed c) = None"
    using a by (simp add: reparsed_def truthyNum_def)
  ultimately show "map priority (parseICalendarData (componentsToICalendar [c])) = [None]"
    by simp
qed

lemma zeroPriorityTask_facts:
  "parseICalendarData zeroPriorityDoc = [zeroPriorityTask]"
  "serialisable zeroPriorityTask"
  "priority zeroPriorityTask = Some (Num 0)"
  "\<not> list_ex (prefix ''PRIORITY:'') (componentLines zeroPriorityTask)"
  by code_simp+

theorem priority_emission_witness:
  "parseICalendarData zeroPriorityDoc = [zeroPriorityTask]
   \<and> serialisable zeroPriorityTask
   \<and> priority zeroPriorityTask = Some (Num 0)
   \<and> \<not> list_ex (prefix ''PRIORITY:'') (componentLines zeroPriorityTask)
   \<and> map priority (parseICalendarData (componentsToICalendar (parseICalendarData zeroPriorityDoc)))
       = [None]"
  using priority_emission [of zeroPriorityTask] zeroPriorityTask_facts by simp

end
